theory Spec2Isabelle
  imports Complex_Main
begin

section \<open>The instanced panel group of uikit\<close>

text \<open>
  This theory embeds \<^verbatim>\<open>packages/uikit/src/panel/instanced-panel-group.ts\<close>: the class
  \<^verbatim>\<open>InstancedPanelGroup\<close>, which owns three per-instance arrays and a list of buckets and
  decides when the arrays are reallocated and when the pending rearrangement runs.

  Conventions of the embedding.
  \<^item> A method that mutates \<^verbatim>\<open>this\<close> is a function from the state record to the new state.
  \<^item> A thrown JavaScript exception is a value \<open>Inl e\<close>; an operation that throws ends the run,
    so only states produced by operations that returned are reachable.
  \<^item> JavaScript numbers that hold counts are \<open>int\<close> (\<^verbatim>\<open>elementCount\<close> is decremented before
    anything is checked), times are \<open>real\<close>, and the entries of a \<^verbatim>\<open>Float32Array\<close> are \<open>real\<close>:
    the class only writes, moves and zeroes them.
  \<^item> \<^verbatim>\<open>addUpdateRange\<close> and \<^verbatim>\<open>needsUpdate\<close> (the upload bookkeeping of an attribute), the
    scene graph (\<^verbatim>\<open>object.current\<close>), the material and the shadow flags are write-only for
    this class and are left out; an attribute is its array.
  \<^item> The allocator module \<^verbatim>\<open>../allocation/sorted-buckets.js\<close> is imported by the class. Its
    four functions are a parameter of every method here (the record \<open>env\<close>); the callbacks the
    class hands to them return nothing, so a call of an allocator function is its result, the new
    bucket list and the sequence of callback invocations it made.
\<close>

subsection \<open>Exceptions\<close>

datatype error =
    BucketUndefined       \<comment> \<open>TypeError: \<^verbatim>\<open>lastBucket.offset\<close> with \<^verbatim>\<open>lastBucket\<close> undefined\<close>
  | MeshUndefined         \<comment> \<open>TypeError: \<^verbatim>\<open>this.mesh!.count = ...\<close> with \<^verbatim>\<open>mesh\<close> undefined\<close>
  | AttributeUndefined    \<comment> \<open>TypeError: a callback reads an attribute before the first \<^verbatim>\<open>resize()\<close>\<close>
  | OffsetOutOfBounds     \<comment> \<open>RangeError of \<^verbatim>\<open>TypedArray.set\<close>: the source does not fit at the offset\<close>
  | InvalidArrayLength    \<comment> \<open>RangeError of \<^verbatim>\<open>new Float32Array(n)\<close> with negative \<open>n\<close>\<close>
  | ContractViolation     \<comment> \<open>an exception thrown by the allocator itself\<close>

definition bindE :: "error + 'a \<Rightarrow> ('a \<Rightarrow> error + 'b) \<Rightarrow> error + 'b" where
  "bindE m f = (case m of Inl e \<Rightarrow> Inl e | Inr x \<Rightarrow> f x)"

subsection \<open>Typed arrays\<close>

text \<open>\<^verbatim>\<open>target.set(source, off)\<close>: throws when the source does not fit.\<close>

definition array_set :: "real list \<Rightarrow> real list \<Rightarrow> nat \<Rightarrow> error + real list" where
  "array_set target source off =
     (if off + length source > length target then Inl OffsetOutOfBounds
      else Inr (take off target @ source @ drop (off + length source) target))"

text \<open>\<^verbatim>\<open>array.fill(0, start, end)\<close> for non-negative bounds: both are clamped to the length.\<close>

definition array_fill0 :: "real list \<Rightarrow> nat \<Rightarrow> nat \<Rightarrow> real list" where
  "array_fill0 a start end =
     (let k = min start (length a); final = min end (length a)
      in take k a @ replicate (final - k) 0 @ drop (max k final) a)"

text \<open>
  \<^verbatim>\<open>array.copyWithin(target, start, end)\<close> for non-negative arguments: the three positions are
  clamped to the length, \<open>min (final - from) (len - to)\<close> entries are copied, and the
  copy reads the array as it was before the call.
\<close>

definition array_copyWithin :: "real list \<Rightarrow> nat \<Rightarrow> nat \<Rightarrow> nat \<Rightarrow> real list" where
  "array_copyWithin a target start end =
     (let len = length a; to = min target len; from = min start len; final = min end len;
          n = min (final - from) (len - to)
      in take to a @ take n (drop from a) @ drop (to + n) a)"

text \<open>
  The reallocation of one attribute in \<^verbatim>\<open>resize()\<close>:
  \<^verbatim>\<open>const a = new Float32Array(n); if (old != null) a.set(old.array.subarray(0, a.length))\<close>.
\<close>

definition reallocate :: "nat \<Rightarrow> real list option \<Rightarrow> real list" where
  "reallocate n old =
     (case old of None \<Rightarrow> replicate n 0
      | Some a \<Rightarrow> take n a @ replicate (n - length a) 0)"

subsection \<open>Buckets and the callbacks of the allocator\<close>

text \<open>
  Modelled from the spec: the type \<^verbatim>\<open>Bucket\<close> is declared in the allocator module, which is
  not among the sources. The class reads \<^verbatim>\<open>offset\<close> and \<^verbatim>\<open>elements.length\<close> of a bucket. The
  other fields follow the data model of the specification (section 3) and its contract of
  insert (section 4.1): the bucket index is the sort key; an element of the sequence is stored
  with the slot its per-instance data lives in at the moment, \<open>None\<close> for an element that was
  appended logically and whose slot is not known yet; \<open>slack\<close> counts the clean slots the group
  has reserved for the bucket directly past its logical end.
\<close>

record 'e bucket =
  bucket_index :: int
  offset :: nat
  elements :: "('e \<times> nat option) list"
  slack :: nat

text \<open>
  One invocation of a callback: \<^verbatim>\<open>activateElement(element, bucket, indexInBucket)\<close> with the
  \<^verbatim>\<open>bucket.offset\<close> it reads, \<^verbatim>\<open>clearBufferAt(index)\<close>, \<^verbatim>\<open>setElementIndex(element, index)\<close>
  and \<^verbatim>\<open>bufferCopyWithin(targetIndex, startIndex, endIndex)\<close>.
\<close>

datatype 'e call =
    ActivateElement 'e nat nat
  | ClearBufferAt nat
  | SetElementIndex 'e nat
  | BufferCopyWithin nat nat nat

record 'e env =
  alloc_add :: "'e bucket list \<Rightarrow> int \<Rightarrow> 'e \<Rightarrow> error + (bool \<times> 'e bucket list \<times> 'e call list)"
  alloc_remove :: "'e bucket list \<Rightarrow> int \<Rightarrow> 'e \<Rightarrow> nat option \<Rightarrow>
                     error + (bool \<times> 'e bucket list \<times> 'e call list)"
  alloc_update :: "'e bucket list \<Rightarrow> 'e bucket list \<times> 'e call list"
  alloc_resize :: "'e bucket list \<Rightarrow> int \<Rightarrow> int \<Rightarrow> 'e bucket list"
  defaultData :: "'e \<Rightarrow> real list"     \<comment> \<open>\<^verbatim>\<open>element.materialConfig.defaultData\<close>\<close>
  meshInitialCount :: int               \<comment> \<open>\<^verbatim>\<open>count\<close> of a fresh \<^verbatim>\<open>InstancedPanelMesh\<close>\<close>

subsection \<open>The state of a group\<close>

record mesh =
  count :: int
  visible :: bool
  mesh_renderOrder :: int

datatype update_time = NextFrame | At real

text \<open>
  The fields of the class, then the part of the host the class acts on: the timeouts that are
  pending (handle and delay), the next fresh handle, and the number of \<^verbatim>\<open>root.requestRender()\<close>
  calls. \<open>updateRuns\<close> is an observation added to the model: the number of times the body of
  \<^verbatim>\<open>update()\<close> has been entered.
\<close>

record 'e group =
  mesh :: "mesh option"
  instanceMatrix :: "real list option"
  instanceData :: "real list option"
  instanceClipping :: "real list option"
  buckets :: "'e bucket list"
  elementCount :: int
  bufferElementSize :: int
  nextUpdateTime :: "update_time option"
  nextUpdateTimeoutRef :: "nat option"
  renderOrder :: int
  depthTest :: bool
  timers :: "(nat \<times> real) list"
  timerSeq :: nat
  renderRequests :: nat
  updateRuns :: nat

definition init :: "int \<Rightarrow> bool \<Rightarrow> 'e group" where
  "init ro dt =
     \<lparr> mesh = None, instanceMatrix = None, instanceData = None, instanceClipping = None,
       buckets = [], elementCount = 0, bufferElementSize = 0,
       nextUpdateTime = None, nextUpdateTimeoutRef = None,
       renderOrder = ro, depthTest = dt,
       timers = [], timerSeq = 0, renderRequests = 0, updateRuns = 0 \<rparr>"

subsection \<open>The callbacks\<close>

definition activateElement :: "'e env \<Rightarrow> 'e \<Rightarrow> nat \<Rightarrow> nat \<Rightarrow> 'e group \<Rightarrow> error + 'e group" where
  "activateElement A element bucket_offset indexInBucket s =
     (let index = bucket_offset + indexInBucket
      in case instanceData s of
           None \<Rightarrow> Inl AttributeUndefined
         | Some a \<Rightarrow>
             bindE (array_set a (defaultData A element) (16 * index))
               (\<lambda>a'. Inr (s\<lparr>instanceData := Some a'\<rparr>)))"

definition copyWithinAttribute :: "real list \<Rightarrow> nat \<Rightarrow> nat \<Rightarrow> nat \<Rightarrow> real list" where
  "copyWithinAttribute a targetIndex startIndex endIndex =
     (let itemSize = 16; start = startIndex * itemSize; end = endIndex * itemSize;
          target = targetIndex * itemSize
      in array_copyWithin a target start end)"

definition bufferCopyWithin :: "nat \<Rightarrow> nat \<Rightarrow> nat \<Rightarrow> 'e group \<Rightarrow> error + 'e group" where
  "bufferCopyWithin targetIndex startIndex endIndex s =
     (case (instanceMatrix s, instanceData s, instanceClipping s) of
        (Some m, Some d, Some c) \<Rightarrow>
          Inr (s\<lparr>instanceMatrix := Some (copyWithinAttribute m targetIndex startIndex endIndex),
                 instanceData := Some (copyWithinAttribute d targetIndex startIndex endIndex),
                 instanceClipping := Some (copyWithinAttribute c targetIndex startIndex endIndex)\<rparr>)
      | _ \<Rightarrow> Inl AttributeUndefined)"

definition clearBufferAt :: "nat \<Rightarrow> 'e group \<Rightarrow> error + 'e group" where
  "clearBufferAt index s =
     (let bufferOffset = index * 16
      in case instanceMatrix s of
           None \<Rightarrow> Inl AttributeUndefined
         | Some m \<Rightarrow> Inr (s\<lparr>instanceMatrix := Some (array_fill0 m bufferOffset (bufferOffset + 16))\<rparr>))"

fun apply_call :: "'e env \<Rightarrow> 'e call \<Rightarrow> 'e group \<Rightarrow> error + 'e group" where
  "apply_call A (ActivateElement e off i) s = activateElement A e off i s"
| "apply_call A (ClearBufferAt i) s = clearBufferAt i s"
| "apply_call A (SetElementIndex e i) s = Inr s"
| "apply_call A (BufferCopyWithin t f l) s = bufferCopyWithin t f l s"

fun apply_calls :: "'e env \<Rightarrow> 'e call list \<Rightarrow> 'e group \<Rightarrow> error + 'e group" where
  "apply_calls A [] s = Inr s"
| "apply_calls A (c # cs) s = bindE (apply_call A c s) (apply_calls A cs)"

subsection \<open>Scheduling\<close>

definition clearTimeout :: "nat option \<Rightarrow> (nat \<times> real) list \<Rightarrow> (nat \<times> real) list" where
  "clearTimeout ref ts = (case ref of None \<Rightarrow> ts | Some h \<Rightarrow> filter (\<lambda>t. fst t \<noteq> h) ts)"

definition updateCount :: "'e group \<Rightarrow> error + 'e group" where
  "updateCount s =
     (case buckets s of
        [] \<Rightarrow> Inl BucketUndefined
      | _ # _ \<Rightarrow>
          (let lastBucket = last (buckets s);
               cnt = int (offset lastBucket + length (elements lastBucket))
           in case mesh s of
                None \<Rightarrow> Inr s
              | Some m \<Rightarrow>
                  Inr (s\<lparr>mesh := Some (m\<lparr>count := cnt, visible := (cnt > 0)\<rparr>),
                         renderRequests := renderRequests s + 1\<rparr>)))"

text \<open>\<^verbatim>\<open>requestUpdate(time)\<close>; \<open>now\<close> is the value \<^verbatim>\<open>performance.now()\<close> returns in the call.\<close>

definition requestUpdate :: "real \<Rightarrow> real \<Rightarrow> 'e group \<Rightarrow> 'e group" where
  "requestUpdate time now s =
     (if nextUpdateTime s = Some NextFrame then s
      else
        let forTime = now + time
        in if (case nextUpdateTime s of Some (At t) \<Rightarrow> t < forTime | _ \<Rightarrow> False) then s
           else s\<lparr>nextUpdateTime := Some (At forTime),
                  timers := clearTimeout (nextUpdateTimeoutRef s) (timers s) @ [(timerSeq s, time)],
                  nextUpdateTimeoutRef := Some (timerSeq s),
                  timerSeq := timerSeq s + 1\<rparr>)"

definition requestUpdateNextFrame :: "'e group \<Rightarrow> 'e group" where
  "requestUpdateNextFrame s =
     s\<lparr>nextUpdateTime := Some NextFrame,
       timers := clearTimeout (nextUpdateTimeoutRef s) (timers s),
       nextUpdateTimeoutRef := None,
       renderRequests := renderRequests s + 1\<rparr>"

text \<open>
  A pending timeout fires: the host drops it and calls the bound \<^verbatim>\<open>requestUpdateNextFrame\<close>.
  A handle that is not pending does not fire.
\<close>

definition timeout :: "nat \<Rightarrow> 'e group \<Rightarrow> 'e group" where
  "timeout h s =
     (if h \<in> fst ` set (timers s)
      then requestUpdateNextFrame (s\<lparr>timers := filter (\<lambda>t. fst t \<noteq> h) (timers s)\<rparr>)
      else s)"

definition setDepthTest :: "bool \<Rightarrow> 'e group \<Rightarrow> 'e group" where
  "setDepthTest dt s = s\<lparr>depthTest := dt\<rparr>"

definition setRenderOrder :: "int \<Rightarrow> 'e group \<Rightarrow> 'e group" where
  "setRenderOrder ro s =
     (let s1 = s\<lparr>renderOrder := ro\<rparr>
      in case mesh s1 of
           None \<Rightarrow> s1
         | Some m \<Rightarrow> s1\<lparr>mesh := Some (m\<lparr>mesh_renderOrder := ro\<rparr>)\<rparr>)"

subsection \<open>resize and update\<close>

definition rearrange :: "'e env \<Rightarrow> 'e group \<Rightarrow> error + 'e group" where
  "rearrange A s =
     (case alloc_update A (buckets s) of
        (bs, calls) \<Rightarrow> apply_calls A calls (s\<lparr>buckets := bs\<rparr>))"

definition resize :: "'e env \<Rightarrow> 'e group \<Rightarrow> error + 'e group" where
  "resize A s =
     (let oldBufferSize = bufferElementSize s;
          newSize = \<lceil>real_of_int (elementCount s) * 1.5\<rceil>;
          bs = alloc_resize A (buckets s) oldBufferSize newSize
      in if newSize < 0 then Inl InvalidArrayLength
         else
           Inr (s\<lparr>bufferElementSize := newSize,
                  buckets := bs,
                  instanceMatrix := Some (reallocate (nat newSize * 16) (instanceMatrix s)),
                  instanceData := Some (reallocate (nat newSize * 16) (instanceData s)),
                  instanceClipping := Some (reallocate (nat newSize * 16) (instanceClipping s)),
                  mesh := Some \<lparr>count = meshInitialCount A, visible = True,
                                mesh_renderOrder = renderOrder s\<rparr>\<rparr>))"

definition setDrawCount :: "'e group \<Rightarrow> error + 'e group" where
  "setDrawCount s =
     (case mesh s of
        None \<Rightarrow> Inl MeshUndefined
      | Some m \<Rightarrow> Inr (s\<lparr>mesh := Some (m\<lparr>count := elementCount s, visible := True\<rparr>)\<rparr>))"

definition update :: "'e env \<Rightarrow> 'e group \<Rightarrow> error + 'e group" where
  "update A s0 =
     (let s = s0\<lparr>updateRuns := updateRuns s0 + 1\<rparr>
      in if elementCount s = 0 then
           (case mesh s of
              None \<Rightarrow> Inr s
            | Some m \<Rightarrow> Inr (s\<lparr>mesh := Some (m\<lparr>visible := False\<rparr>)\<rparr>))
         else
           bindE
             (if real_of_int (elementCount s) > real_of_int (bufferElementSize s) then
                bindE (resize A s) (rearrange A)
              else if real_of_int (elementCount s) \<le> real_of_int (bufferElementSize s) / 3 then
                bindE (rearrange A s) (resize A)
              else rearrange A s)
             setDrawCount)"

subsection \<open>The public methods\<close>

definition insert_panel :: "'e env \<Rightarrow> int \<Rightarrow> 'e \<Rightarrow> 'e group \<Rightarrow> error + 'e group" where
  "insert_panel A bucketIndex panel s0 =
     (let s = s0\<lparr>elementCount := elementCount s0 + 1\<rparr>
      in case alloc_add A (buckets s) bucketIndex panel of
           Inl e \<Rightarrow> Inl e
         | Inr (needsRearrange, bs, calls) \<Rightarrow>
             bindE (apply_calls A calls (s\<lparr>buckets := bs\<rparr>))
               (\<lambda>s'. if \<not> needsRearrange then updateCount s'
                     else Inr (requestUpdateNextFrame s')))"

definition delete_panel ::
  "'e env \<Rightarrow> int \<Rightarrow> nat option \<Rightarrow> 'e \<Rightarrow> real \<Rightarrow> 'e group \<Rightarrow> error + 'e group" where
  "delete_panel A bucketIndex elementIndex panel now s0 =
     (let s = s0\<lparr>elementCount := elementCount s0 - 1\<rparr>
      in case alloc_remove A (buckets s) bucketIndex panel elementIndex of
           Inl e \<Rightarrow> Inl e
         | Inr (needsRearrange, bs, calls) \<Rightarrow>
             bindE (apply_calls A calls (s\<lparr>buckets := bs\<rparr>))
               (\<lambda>s'. if \<not> needsRearrange then updateCount s'
                     else Inr (requestUpdate 1000 now s')))"

definition onFrame :: "'e env \<Rightarrow> 'e group \<Rightarrow> error + 'e group" where
  "onFrame A s =
     (if nextUpdateTime s \<noteq> Some NextFrame then Inr s
      else update A (s\<lparr>nextUpdateTime := None\<rparr>))"

definition destroy :: "'e group \<Rightarrow> 'e group" where
  "destroy s = s\<lparr>timers := clearTimeout (nextUpdateTimeoutRef s) (timers s)\<rparr>"

subsection \<open>Runs\<close>

datatype 'e event =
    Insert int 'e
  | Delete int "nat option" 'e real
  | Frame
  | Timeout nat
  | SetDepthTest bool
  | SetRenderOrder int

fun step :: "'e env \<Rightarrow> 'e event \<Rightarrow> 'e group \<Rightarrow> error + 'e group" where
  "step A (Insert b p) s = insert_panel A b p s"
| "step A (Delete b i p now) s = delete_panel A b i p now s"
| "step A Frame s = onFrame A s"
| "step A (Timeout h) s = Inr (timeout h s)"
| "step A (SetDepthTest dt) s = Inr (setDepthTest dt s)"
| "step A (SetRenderOrder ro) s = Inr (setRenderOrder ro s)"

fun run :: "'e env \<Rightarrow> 'e event list \<Rightarrow> 'e group \<Rightarrow> error + 'e group" where
  "run A [] s = Inr s"
| "run A (ev # evs) s = bindE (step A ev s) (run A evs)"

inductive reachable :: "'e env \<Rightarrow> 'e group \<Rightarrow> bool" for A :: "'e env" where
  reachable_init: "reachable A (init ro dt)"
| reachable_step: "reachable A s \<Longrightarrow> step A ev s = Inr s' \<Longrightarrow> reachable A s'"

section \<open>The sorted-bucket allocator\<close>

text \<open>
  Modelled from the spec: the four functions of \<^verbatim>\<open>../allocation/sorted-buckets.js\<close>
  (\<^verbatim>\<open>addToSortedBuckets\<close>, \<^verbatim>\<open>removeFromSortedBuckets\<close>, \<^verbatim>\<open>updateSortedBucketsAllocation\<close>,
  \<^verbatim>\<open>resizeSortedBucketsSpace\<close>) are not among the sources; the class above only calls them.
  The definitions of this section follow sections 3 and 4.1 of the specification.
  \<^item> Buckets are kept sorted by their unique bucket index; a bucket is created on the first
    insert for its index and removed when its element count reaches zero.
  \<^item> \<^emph>\<open>insert\<close>: if the bucket has a clean region past its logical end within its slack, the
    element is written into the next free slot and activated, and no rearrangement is needed;
    otherwise it is appended logically, without a slot, and a rearrangement is needed.
  \<^item> \<^emph>\<open>remove\<close>: the element is found by the known index, else by a linear scan. If it is the
    last of its bucket and the bucket is the last one, its slot is cleared in place and no
    rearrangement is needed; otherwise a hole is left and a rearrangement is needed.
  \<^item> \<^emph>\<open>rearrange\<close>: every bucket's offset becomes the running sum of the sizes before it, and
    every element whose slot is not its new slot is copied into place (or activated, when it had
    no slot). A block of elements that the specification moves with one copy is moved here
    element by element, downward moves in ascending and upward moves in descending order.
  \<^item> \<^emph>\<open>resize\<close>: recomputes the offsets and moves the slack of the last bucket by the change
    of capacity; it issues no callback.
  The search for the bucket is a scan of the sorted list; it finds the position the binary
  search of the specification finds.

  The specification does not say how the slack is accounted. Here a slot counts as slack of a
  bucket only while it is free and directly past the elements of the bucket: a new bucket has
  none; a fast insert uses one; a fast remove gives one back when the freed slot is the one
  directly past the remaining elements; a remove from the middle of a bucket sets it to zero
  (the slot past the logical end is then taken by the last element, until the rearrangement);
  the rearrangement gives what is left, less the slots of the elements it places, to the last
  bucket; and \<^verbatim>\<open>resize\<close> adds the change of capacity to the last bucket. The slack of a bucket
  that is removed is forgotten, and a hole is not counted as slack.
\<close>

text \<open>Modelled from the spec: the slot directly past the elements of a bucket.\<close>

definition logical_end :: "'e bucket \<Rightarrow> nat" where
  "logical_end b = offset b + length (elements b)"

text \<open>Modelled from the spec: a bucket as the first insert for its index creates it.\<close>

definition new_bucket :: "int \<Rightarrow> nat \<Rightarrow> 'e bucket" where
  "new_bucket k off = \<lparr>bucket_index = k, offset = off, elements = [], slack = 0\<rparr>"

text \<open>
  Modelled from the spec: the insert into the bucket found or created (section 4.1,
  \<^emph>\<open>insert\<close>): in place when the bucket has slack, else appended without a slot. The result is
  \<^verbatim>\<open>needsRearrange\<close>, the new bucket and the callbacks invoked.
\<close>

definition append_element :: "'e bucket \<Rightarrow> 'e \<Rightarrow> bool \<times> 'e bucket \<times> 'e call list" where
  "append_element b e =
     (if slack b > 0 then
        (False,
         b\<lparr>elements := elements b @ [(e, Some (logical_end b))], slack := slack b - 1\<rparr>,
         [ActivateElement e (offset b) (length (elements b))])
      else (True, b\<lparr>elements := elements b @ [(e, None)]\<rparr>, []))"

text \<open>
  Modelled from the spec: the search for the bucket of index \<open>k\<close> in the sorted list; \<open>prev\<close>
  is the logical end of the bucket before, where a new bucket starts.
\<close>

fun add_from :: "nat \<Rightarrow> 'e bucket list \<Rightarrow> int \<Rightarrow> 'e \<Rightarrow> bool \<times> 'e bucket list \<times> 'e call list" where
  "add_from prev [] k e =
     (case append_element (new_bucket k prev) e of (n, b', cs) \<Rightarrow> (n, [b'], cs))"
| "add_from prev (b # bs) k e =
     (if bucket_index b = k then
        (case append_element b e of (n, b', cs) \<Rightarrow> (n, b' # bs, cs))
      else if k < bucket_index b then
        (case append_element (new_bucket k prev) e of (n, b', cs) \<Rightarrow> (n, b' # b # bs, cs))
      else
        (case add_from (logical_end b) bs k e of (n, bs', cs) \<Rightarrow> (n, b # bs', cs)))"

text \<open>Modelled from the spec: \<^verbatim>\<open>addToSortedBuckets(buckets, bucketIndex, element, activateElement)\<close>.\<close>

definition addToSortedBuckets ::
  "'e bucket list \<Rightarrow> int \<Rightarrow> 'e \<Rightarrow> error + (bool \<times> 'e bucket list \<times> 'e call list)" where
  "addToSortedBuckets bs k e = Inr (add_from 0 bs k e)"

text \<open>
  Modelled from the spec: the position of the element in its bucket, by the known index when
  it is right, else by a linear scan.
\<close>

fun scan :: "('e \<times> nat option) list \<Rightarrow> 'e \<Rightarrow> nat option" where
  "scan [] e = None"
| "scan (x # xs) e = (if fst x = e then Some 0 else map_option Suc (scan xs e))"

definition locate :: "('e \<times> nat option) list \<Rightarrow> 'e \<Rightarrow> nat option \<Rightarrow> nat option" where
  "locate es e known =
     (case known of
        None \<Rightarrow> scan es e
      | Some i \<Rightarrow> if i < length es \<and> fst (es ! i) = e then Some i else scan es e)"

text \<open>
  Modelled from the spec: the removal of the element at position \<open>i\<close> of a bucket (section 4.1,
  \<^emph>\<open>remove\<close>); \<open>lastBucket\<close> says whether the bucket is the last one.
\<close>

definition remove_at :: "bool \<Rightarrow> 'e bucket \<Rightarrow> nat \<Rightarrow> bool \<times> 'e bucket \<times> 'e call list" where
  "remove_at lastBucket b i =
     (let es = elements b; slot = snd (es ! i); lastInBucket = (Suc i = length es);
          es' = take i es @ drop (Suc i) es
      in if lastInBucket \<and> lastBucket then
           (False,
            b\<lparr>elements := es',
              slack := (if slot = Some (offset b + i) then slack b + 1 else slack b)\<rparr>,
            (case slot of Some p \<Rightarrow> [ClearBufferAt p] | None \<Rightarrow> []))
         else
           (True, b\<lparr>elements := es', slack := (if lastInBucket then slack b else 0)\<rparr>, []))"

text \<open>
  Modelled from the spec: the search for the bucket; an unknown bucket index or element is a
  contract violation (section 7), and a bucket whose element count reaches zero is removed
  (section 3).
\<close>

fun remove_in ::
  "'e bucket list \<Rightarrow> int \<Rightarrow> 'e \<Rightarrow> nat option \<Rightarrow> error + (bool \<times> 'e bucket list \<times> 'e call list)" where
  "remove_in [] k e known = Inl ContractViolation"
| "remove_in (b # bs) k e known =
     (if bucket_index b = k then
        (case locate (elements b) e known of
           None \<Rightarrow> Inl ContractViolation
         | Some i \<Rightarrow>
             (case remove_at (bs = []) b i of
                (n, b', cs) \<Rightarrow> Inr (n, (if elements b' = [] then bs else b' # bs), cs)))
      else
        (case remove_in bs k e known of
           Inl err \<Rightarrow> Inl err
         | Inr (n, bs', cs) \<Rightarrow> Inr (n, b # bs', cs)))"

text \<open>
  Modelled from the spec: \<^verbatim>\<open>removeFromSortedBuckets(buckets, bucketIndex, element, elementIndex,
  activateElement, clearBufferAt, setElementIndex, bufferCopyWithin)\<close>.
\<close>

definition removeFromSortedBuckets ::
  "'e bucket list \<Rightarrow> int \<Rightarrow> 'e \<Rightarrow> nat option \<Rightarrow> error + (bool \<times> 'e bucket list \<times> 'e call list)" where
  "removeFromSortedBuckets bs k e known = remove_in bs k e known"

text \<open>Modelled from the spec: every offset becomes the running sum of the sizes before it.\<close>

fun recompute_offsets :: "nat \<Rightarrow> 'e bucket list \<Rightarrow> 'e bucket list" where
  "recompute_offsets off [] = []"
| "recompute_offsets off (b # bs) =
     b\<lparr>offset := off\<rparr> # recompute_offsets (off + length (elements b)) bs"

text \<open>Modelled from the spec: the slack that is left belongs to the last bucket.\<close>

definition set_last_slack :: "nat \<Rightarrow> 'e bucket list \<Rightarrow> 'e bucket list" where
  "set_last_slack n bs =
     (case bs of [] \<Rightarrow> [] | _ # _ \<Rightarrow> butlast bs @ [(last bs)\<lparr>slack := n\<rparr>])"

text \<open>
  Modelled from the spec: after the rearrangement every element of a bucket has the slot
  \<open>offset + position\<close>, and no bucket but the last has slack.
\<close>

definition settle :: "'e bucket \<Rightarrow> 'e bucket" where
  "settle b =
     b\<lparr>elements := map (\<lambda>(j, (e, s)). (e, Some (offset b + j))) (enumerate 0 (elements b)),
       slack := 0\<rparr>"

text \<open>
  Modelled from the spec: the callbacks of the rearrangement for one bucket. An element with a
  slot that is not its new slot is copied; an element without a slot is activated.
\<close>

definition down_copies :: "'e bucket \<Rightarrow> 'e call list" where
  "down_copies b =
     concat (map (\<lambda>(j, (e, s)).
        (case s of Some p \<Rightarrow> if offset b + j < p then [BufferCopyWithin (offset b + j) p (p + 1)] else []
         | None \<Rightarrow> [])) (enumerate 0 (elements b)))"

definition up_copies :: "'e bucket \<Rightarrow> 'e call list" where
  "up_copies b =
     concat (map (\<lambda>(j, (e, s)).
        (case s of Some p \<Rightarrow> if p < offset b + j then [BufferCopyWithin (offset b + j) p (p + 1)] else []
         | None \<Rightarrow> [])) (enumerate 0 (elements b)))"

definition activations :: "'e bucket \<Rightarrow> 'e call list" where
  "activations b =
     concat (map (\<lambda>(j, (e, s)).
        (case s of Some p \<Rightarrow> [] | None \<Rightarrow> [ActivateElement e (offset b) j]))
        (enumerate 0 (elements b)))"

text \<open>Modelled from the spec: the elements of a bucket that have no slot yet.\<close>

definition pending :: "'e bucket \<Rightarrow> nat" where
  "pending b = length (filter (\<lambda>x. snd x = None) (elements b))"

text \<open>
  Modelled from the spec:
  \<^verbatim>\<open>updateSortedBucketsAllocation(buckets, activateElement, bufferCopyWithin)\<close>, the
  rearrangement pass.
\<close>

definition updateSortedBucketsAllocation :: "'e bucket list \<Rightarrow> 'e bucket list \<times> 'e call list" where
  "updateSortedBucketsAllocation bs =
     (let bs1 = recompute_offsets 0 bs;
          free = sum_list (map slack bs) - sum_list (map pending bs)
      in (set_last_slack free (map settle bs1),
          concat (map down_copies bs1) @ rev (concat (map up_copies bs1))
            @ concat (map activations bs1)))"

text \<open>Modelled from the spec: \<^verbatim>\<open>resizeSortedBucketsSpace(buckets, oldSize, newSize)\<close>.\<close>

definition resizeSortedBucketsSpace :: "'e bucket list \<Rightarrow> int \<Rightarrow> int \<Rightarrow> 'e bucket list" where
  "resizeSortedBucketsSpace bs oldSize newSize =
     (let bs1 = recompute_offsets 0 bs
      in case bs1 of
           [] \<Rightarrow> []
         | _ # _ \<Rightarrow> set_last_slack (nat (int (slack (last bs1)) + newSize - oldSize)) bs1)"

text \<open>
  The allocator of the specification as an environment of the class; \<open>dd\<close> gives the default
  data of an element and \<open>c0\<close> the draw count of a fresh mesh.
\<close>

definition sortedBuckets :: "('e \<Rightarrow> real list) \<Rightarrow> int \<Rightarrow> 'e env" where
  "sortedBuckets dd c0 =
     \<lparr> alloc_add = addToSortedBuckets, alloc_remove = removeFromSortedBuckets,
       alloc_update = updateSortedBucketsAllocation, alloc_resize = resizeSortedBucketsSpace,
       defaultData = dd, meshInitialCount = c0 \<rparr>"

section \<open>Predicates and states used in the theorems\<close>

subsection \<open>The class\<close>

text \<open>
  What a callback may change: nothing but the three arrays (\<open>arrays_only\<close>), and never their
  lengths (\<open>same_lengths\<close>).
\<close>

definition arrays_only :: "'e group \<Rightarrow> 'e group \<Rightarrow> bool" where
  "arrays_only s s' \<longleftrightarrow>
     s' = s\<lparr>instanceMatrix := instanceMatrix s', instanceData := instanceData s',
            instanceClipping := instanceClipping s'\<rparr>"

definition same_lengths :: "'e group \<Rightarrow> 'e group \<Rightarrow> bool" where
  "same_lengths s s' \<longleftrightarrow>
     map_option length (instanceMatrix s') = map_option length (instanceMatrix s) \<and>
     map_option length (instanceData s') = map_option length (instanceData s) \<and>
     map_option length (instanceClipping s') = map_option length (instanceClipping s)"

text \<open>The two tests of \<^verbatim>\<open>update()\<close>, as it evaluates them.\<close>

definition grows :: "'e group \<Rightarrow> bool" where
  "grows s \<longleftrightarrow> real_of_int (elementCount s) > real_of_int (bufferElementSize s)"

definition shrinks :: "'e group \<Rightarrow> bool" where
  "shrinks s \<longleftrightarrow> \<not> grows s \<and> real_of_int (elementCount s) \<le> real_of_int (bufferElementSize s) / 3"

text \<open>
  What every reachable state satisfies. The capacity is not negative, there is a mesh as soon
  as the capacity is positive, and with a mesh the three arrays have 16 entries per slot of
  capacity. At most one timeout is pending; it is the one \<^verbatim>\<open>nextUpdateTimeoutRef\<close> holds, and
  it is pending exactly when \<^verbatim>\<open>nextUpdateTime\<close> is a number.
\<close>

definition storage_inv :: "'e group \<Rightarrow> bool" where
  "storage_inv s \<longleftrightarrow>
     0 \<le> bufferElementSize s \<and>
     (mesh s = None \<longrightarrow> bufferElementSize s = 0) \<and>
     (mesh s \<noteq> None \<longrightarrow>
        map_option length (instanceMatrix s) = Some (nat (bufferElementSize s) * 16) \<and>
        map_option length (instanceData s) = Some (nat (bufferElementSize s) * 16) \<and>
        map_option length (instanceClipping s) = Some (nat (bufferElementSize s) * 16))"

definition schedule_inv :: "'e group \<Rightarrow> bool" where
  "schedule_inv s \<longleftrightarrow>
     ((\<exists>t. nextUpdateTime s = Some (At t)) \<and>
        (\<exists>h d. timers s = [(h, d)] \<and> nextUpdateTimeoutRef s = Some h)) \<or>
     ((\<forall>t. nextUpdateTime s \<noteq> Some (At t)) \<and> timers s = [])"

text \<open>
  A burst of deletions, each of which the allocator answers with "rearrangement needed":
  \<open>None\<close> when one of them throws or is answered otherwise.
\<close>

fun slow_deletes ::
  "'e env \<Rightarrow> (int \<times> nat option \<times> 'e \<times> real) list \<Rightarrow> 'e group \<Rightarrow> 'e group option" where
  "slow_deletes A [] s = Some s"
| "slow_deletes A ((k, i, p, now) # ds) s =
     (case alloc_remove A (buckets s) k p i of
        Inr (True, bs, cs) \<Rightarrow>
          (case delete_panel A k i p now s of
             Inr s1 \<Rightarrow> slow_deletes A ds s1
           | Inl e \<Rightarrow> None)
      | _ \<Rightarrow> None)"



text \<open>
  The states the witnesses and counterexamples are evaluated at: the class over the allocator
  of the specification, with 16 ones as the default data of every panel; and the state of a
  group of capacity 3 all of whose panels have been deleted.
\<close>

definition example_env :: "nat env" where
  "example_env = sortedBuckets (\<lambda>_. replicate 16 1) 0"

definition drained :: "nat group" where
  "drained =
     \<lparr> mesh = Some \<lparr>count = 2, visible = True, mesh_renderOrder = 0\<rparr>,
       instanceMatrix = Some (replicate 48 0), instanceData = Some (replicate 48 0),
       instanceClipping = Some (replicate 48 0),
       buckets = [], elementCount = 0, bufferElementSize = 3,
       nextUpdateTime = None, nextUpdateTimeoutRef = None,
       renderOrder = 0, depthTest = True,
       timers = [], timerSeq = 1, renderRequests = 3, updateRuns = 1 \<rparr>"

subsection \<open>The allocator of the specification\<close>


fun running :: "nat \<Rightarrow> (nat \<times> nat) list \<Rightarrow> bool" where
  "running off [] = True"
| "running off (x # xs) = (fst x = off \<and> running (off + snd x) xs)"

definition spans :: "'e bucket list \<Rightarrow> (nat \<times> nat) list" where
  "spans bs = map (\<lambda>b. (offset b, length (elements b))) bs"

definition contiguous :: "'e bucket list \<Rightarrow> bool" where
  "contiguous bs \<longleftrightarrow> running 0 (spans bs)"

definition in_place :: "'e bucket \<Rightarrow> bool" where
  "in_place b \<longleftrightarrow>
     map snd (elements b) = map (\<lambda>j. Some (offset b + j)) [0..<length (elements b)]"

definition packed :: "'e bucket list \<Rightarrow> bool" where
  "packed bs \<longleftrightarrow>
     contiguous bs \<and> (\<forall>b \<in> set bs. in_place b) \<and> (\<forall>b \<in> set (butlast bs). slack b = 0)"






section \<open>Lemmas\<close>

subsection \<open>Results, arithmetic and callbacks\<close>

lemma bindE_Inl [simp]: "bindE (Inl e) f = Inl e"
  by (simp add: bindE_def)

lemma bindE_Inr [simp]: "bindE (Inr x) f = f x"
  by (simp add: bindE_def)

lemma bindE_eq_Inr: "bindE m f = Inr y \<longleftrightarrow> (\<exists>x. m = Inr x \<and> f x = Inr y)"
  by (cases m) simp_all

lemma bindE_eq_Inl: "bindE m f = Inl e \<longleftrightarrow> (m = Inl e \<or> (\<exists>x. m = Inr x \<and> f x = Inl e))"
  by (cases m) auto

lemma ceiling_three_halves: "\<lceil>real_of_int n * 1.5\<rceil> = (3 * n + 1) div 2"
proof -
  have "real_of_int n * 1.5 = real_of_int (3 * n) / real_of_int 2" by simp
  then have "\<lceil>real_of_int n * 1.5\<rceil> = - ((- (3 * n)) div 2)"
    by (simp only: ceiling_divide_eq_div)
  also have "\<dots> = (3 * n + 1) div 2" by presburger
  finally show ?thesis .
qed

lemma third_le_iff: "real_of_int n \<le> real_of_int c / 3 \<longleftrightarrow> 3 * n \<le> c"
proof -
  have "real_of_int n \<le> real_of_int c / 3 \<longleftrightarrow> real_of_int (3 * n) \<le> real_of_int c"
    by (simp add: pos_le_divide_eq mult.commute)
  then show ?thesis by (simp only: of_int_le_iff)
qed

lemma arrays_only_refl: "arrays_only s s"
  by (simp add: arrays_only_def)

lemma arrays_only_trans: "arrays_only s s1 \<Longrightarrow> arrays_only s1 s2 \<Longrightarrow> arrays_only s s2"
  unfolding arrays_only_def
  by (metis (no_types, lifting) group.surjective group.update_convs(2,3,4))

lemma apply_call_arrays_only: "apply_call A c s = Inr s' \<Longrightarrow> arrays_only s s'"
  by (cases c)
     (auto simp: arrays_only_def activateElement_def clearBufferAt_def bufferCopyWithin_def
        bindE_eq_Inr Let_def split: option.splits)

lemma apply_calls_arrays_only: "apply_calls A cs s = Inr s' \<Longrightarrow> arrays_only s s'"
proof (induction cs arbitrary: s)
  case Nil
  then show ?case by (simp add: arrays_only_refl)
next
  case (Cons c cs)
  then show ?case
    by (auto simp: bindE_eq_Inr intro: arrays_only_trans dest: apply_call_arrays_only)
qed

lemma arrays_only_fields:
  assumes "arrays_only s s'"
  shows "mesh s' = mesh s" "buckets s' = buckets s" "elementCount s' = elementCount s"
    "bufferElementSize s' = bufferElementSize s" "nextUpdateTime s' = nextUpdateTime s"
    "nextUpdateTimeoutRef s' = nextUpdateTimeoutRef s" "timers s' = timers s"
    "timerSeq s' = timerSeq s" "updateRuns s' = updateRuns s" "renderOrder s' = renderOrder s"
    "renderRequests s' = renderRequests s" "depthTest s' = depthTest s"
proof -
  from assms have eq: "s' = s\<lparr>instanceMatrix := instanceMatrix s', instanceData := instanceData s',
            instanceClipping := instanceClipping s'\<rparr>" by (simp add: arrays_only_def)
  show "mesh s' = mesh s" by (subst eq) simp
  show "buckets s' = buckets s" by (subst eq) simp
  show "elementCount s' = elementCount s" by (subst eq) simp
  show "bufferElementSize s' = bufferElementSize s" by (subst eq) simp
  show "nextUpdateTime s' = nextUpdateTime s" by (subst eq) simp
  show "nextUpdateTimeoutRef s' = nextUpdateTimeoutRef s" by (subst eq) simp
  show "timers s' = timers s" by (subst eq) simp
  show "timerSeq s' = timerSeq s" by (subst eq) simp
  show "updateRuns s' = updateRuns s" by (subst eq) simp
  show "renderOrder s' = renderOrder s" by (subst eq) simp
  show "renderRequests s' = renderRequests s" by (subst eq) simp
  show "depthTest s' = depthTest s" by (subst eq) simp
qed

lemma apply_call_error: "apply_call A c s = Inl e \<Longrightarrow> e = AttributeUndefined \<or> e = OffsetOutOfBounds"
  by (cases c)
     (auto simp: activateElement_def clearBufferAt_def bufferCopyWithin_def array_set_def
        bindE_eq_Inl Let_def split: option.splits if_splits)

lemma apply_calls_error: "apply_calls A cs s = Inl e \<Longrightarrow> e = AttributeUndefined \<or> e = OffsetOutOfBounds"
proof (induction cs arbitrary: s)
  case Nil
  then show ?case by simp
next
  case (Cons c cs)
  then show ?case by (auto simp: bindE_eq_Inl dest: apply_call_error)
qed

subsection \<open>resize, rearrange and update\<close>

lemma rearrange_fields:
  assumes "rearrange A s = Inr s'"
  shows "mesh s' = mesh s" "elementCount s' = elementCount s"
    "bufferElementSize s' = bufferElementSize s" "nextUpdateTime s' = nextUpdateTime s"
    "nextUpdateTimeoutRef s' = nextUpdateTimeoutRef s" "timers s' = timers s"
    "timerSeq s' = timerSeq s" "updateRuns s' = updateRuns s"
    "buckets s' = fst (alloc_update A (buckets s))"
proof -
  obtain bs cs where u: "alloc_update A (buckets s) = (bs, cs)" by (cases "alloc_update A (buckets s)")
  with assms have "apply_calls A cs (s\<lparr>buckets := bs\<rparr>) = Inr s'" by (simp add: rearrange_def)
  then have ao: "arrays_only (s\<lparr>buckets := bs\<rparr>) s'" by (rule apply_calls_arrays_only)
  show "mesh s' = mesh s" using arrays_only_fields(1)[OF ao] by simp
  show "elementCount s' = elementCount s" using arrays_only_fields(3)[OF ao] by simp
  show "bufferElementSize s' = bufferElementSize s" using arrays_only_fields(4)[OF ao] by simp
  show "nextUpdateTime s' = nextUpdateTime s" using arrays_only_fields(5)[OF ao] by simp
  show "nextUpdateTimeoutRef s' = nextUpdateTimeoutRef s" using arrays_only_fields(6)[OF ao] by simp
  show "timers s' = timers s" using arrays_only_fields(7)[OF ao] by simp
  show "timerSeq s' = timerSeq s" using arrays_only_fields(8)[OF ao] by simp
  show "updateRuns s' = updateRuns s" using arrays_only_fields(9)[OF ao] by simp
  show "buckets s' = fst (alloc_update A (buckets s))" using arrays_only_fields(2)[OF ao] u by simp
qed

lemma rearrange_error: "rearrange A s = Inl e \<Longrightarrow> e = AttributeUndefined \<or> e = OffsetOutOfBounds"
  by (auto simp: rearrange_def split: prod.splits dest: apply_calls_error)

lemma resize_fields:
  assumes "resize A s = Inr s'"
  shows "bufferElementSize s' = \<lceil>real_of_int (elementCount s) * 1.5\<rceil>"
    "0 \<le> bufferElementSize s'"
    "mesh s' \<noteq> None" "elementCount s' = elementCount s"
    "nextUpdateTime s' = nextUpdateTime s"
    "nextUpdateTimeoutRef s' = nextUpdateTimeoutRef s" "timers s' = timers s"
    "timerSeq s' = timerSeq s" "updateRuns s' = updateRuns s"
    "instanceMatrix s' = Some (reallocate (nat (bufferElementSize s') * 16) (instanceMatrix s))"
    "instanceData s' = Some (reallocate (nat (bufferElementSize s') * 16) (instanceData s))"
    "instanceClipping s' = Some (reallocate (nat (bufferElementSize s') * 16) (instanceClipping s))"
    "buckets s' = alloc_resize A (buckets s) (bufferElementSize s) (bufferElementSize s')"
  using assms by (auto simp: resize_def Let_def split: if_splits)

lemma resize_error: "resize A s = Inl e \<Longrightarrow> e = InvalidArrayLength"
  by (auto simp: resize_def Let_def split: if_splits)


lemma setDrawCount_eq_Inr:
  "setDrawCount s = Inr s' \<longleftrightarrow>
     (\<exists>m. mesh s = Some m \<and> s' = s\<lparr>mesh := Some (m\<lparr>count := elementCount s, visible := True\<rparr>)\<rparr>)"
  by (auto simp: setDrawCount_def split: option.splits)

lemma update_zero:
  "elementCount s = 0 \<Longrightarrow>
   update A s = Inr (s\<lparr>updateRuns := updateRuns s + 1,
                        mesh := map_option (\<lambda>m. m\<lparr>visible := False\<rparr>) (mesh s)\<rparr>)"
  by (cases "mesh s") (simp_all add: update_def Let_def)

lemma update_nonzero:
  "elementCount s \<noteq> 0 \<Longrightarrow>
   update A s =
     bindE
       (if grows s then bindE (resize A (s\<lparr>updateRuns := updateRuns s + 1\<rparr>)) (rearrange A)
        else if shrinks s then bindE (rearrange A (s\<lparr>updateRuns := updateRuns s + 1\<rparr>)) (resize A)
        else rearrange A (s\<lparr>updateRuns := updateRuns s + 1\<rparr>))
       setDrawCount"
  by (simp add: update_def Let_def grows_def shrinks_def)

lemma update_capacity_aux:
  assumes "update A s = Inr s'" and nz: "elementCount s \<noteq> 0"
  shows "bufferElementSize s' =
           (if grows s \<or> shrinks s then \<lceil>real_of_int (elementCount s) * 1.5\<rceil>
            else bufferElementSize s)"
    and "elementCount s' = elementCount s"
    and "\<exists>m. mesh s' = Some m \<and> count m = elementCount s \<and> visible m"
    and "updateRuns s' = updateRuns s + 1"
    and "nextUpdateTime s' = nextUpdateTime s"
    and "timers s' = timers s"
    and "nextUpdateTimeoutRef s' = nextUpdateTimeoutRef s"
proof -
  let ?s = "s\<lparr>updateRuns := updateRuns s + 1\<rparr>"
  from assms(1) obtain s2 where
    body: "(if grows s then bindE (resize A ?s) (rearrange A)
            else if shrinks s then bindE (rearrange A ?s) (resize A)
            else rearrange A ?s) = Inr s2"
    and fin: "setDrawCount s2 = Inr s'"
    by (auto simp: update_nonzero[OF nz] bindE_eq_Inr)
  from fin obtain m where m: "mesh s2 = Some m"
    and s': "s' = s2\<lparr>mesh := Some (m\<lparr>count := elementCount s2, visible := True\<rparr>)\<rparr>"
    by (auto simp: setDrawCount_eq_Inr)
  have s2: "bufferElementSize s2 =
           (if grows s \<or> shrinks s then \<lceil>real_of_int (elementCount s) * 1.5\<rceil>
            else bufferElementSize s) \<and> elementCount s2 = elementCount s
          \<and> updateRuns s2 = updateRuns s + 1 \<and> nextUpdateTime s2 = nextUpdateTime s
          \<and> timers s2 = timers s \<and> nextUpdateTimeoutRef s2 = nextUpdateTimeoutRef s"
  proof (cases "grows s")
    case True
    with body obtain s1 where r: "resize A ?s = Inr s1" and a: "rearrange A s1 = Inr s2"
      by (auto simp: bindE_eq_Inr)
    show ?thesis using True resize_fields[OF r] rearrange_fields[OF a] by simp
  next
    case False
    show ?thesis
    proof (cases "shrinks s")
      case True
      with False body obtain s1 where a: "rearrange A ?s = Inr s1" and r: "resize A s1 = Inr s2"
        by (auto simp: bindE_eq_Inr)
      show ?thesis using True False resize_fields[OF r] rearrange_fields[OF a] by simp
    next
      case nshr: False
      with False body have a: "rearrange A ?s = Inr s2" by simp
      show ?thesis using nshr False rearrange_fields[OF a] by simp
    qed
  qed
  show "bufferElementSize s' =
           (if grows s \<or> shrinks s then \<lceil>real_of_int (elementCount s) * 1.5\<rceil>
            else bufferElementSize s)" using s2 s' by simp
  show "elementCount s' = elementCount s" using s2 s' by simp
  show "\<exists>m. mesh s' = Some m \<and> count m = elementCount s \<and> visible m" using s2 s' by simp
  show "updateRuns s' = updateRuns s + 1" using s2 s' by simp
  show "nextUpdateTime s' = nextUpdateTime s" using s2 s' by simp
  show "timers s' = timers s" using s2 s' by simp
  show "nextUpdateTimeoutRef s' = nextUpdateTimeoutRef s" using s2 s' by simp
qed

lemma capacity_covers:
  assumes "1 \<le> n"
  shows "n \<le> (if real_of_int n > real_of_int c \<or> real_of_int n \<le> real_of_int c / 3
              then \<lceil>real_of_int n * 1.5\<rceil> else c)"
proof -
  have "n \<le> \<lceil>real_of_int n * 1.5\<rceil>"
    unfolding ceiling_three_halves using assms by presburger
  then show ?thesis by auto
qed

subsection \<open>The invariants of the reachable states\<close>

lemma length_array_set: "array_set t src off = Inr t' \<Longrightarrow> length t' = length t"
  by (auto simp: array_set_def split: if_splits)

lemma length_array_fill0 [simp]: "length (array_fill0 a i j) = length a"
  by (auto simp: array_fill0_def Let_def)

lemma length_array_copyWithin [simp]: "length (array_copyWithin a t f l) = length a"
  by (auto simp: array_copyWithin_def Let_def)

lemma length_reallocate [simp]: "length (reallocate n old) = n"
  by (auto simp: reallocate_def split: option.splits)

lemma apply_call_lengths: "apply_call A c s = Inr s' \<Longrightarrow> same_lengths s s'"
  by (cases c)
     (auto simp: same_lengths_def activateElement_def clearBufferAt_def bufferCopyWithin_def
        copyWithinAttribute_def bindE_eq_Inr Let_def
        dest: length_array_set split: option.splits)

lemma apply_calls_lengths: "apply_calls A cs s = Inr s' \<Longrightarrow> same_lengths s s'"
proof (induction cs arbitrary: s)
  case Nil
  then show ?case by (simp add: same_lengths_def)
next
  case (Cons c cs)
  then obtain s1 where 1: "apply_call A c s = Inr s1" and 2: "apply_calls A cs s1 = Inr s'"
    by (auto simp: bindE_eq_Inr)
  from apply_call_lengths[OF 1] Cons.IH[OF 2] show ?case by (simp add: same_lengths_def)
qed

lemma storage_inv_cong:
  assumes "storage_inv s" "mesh s' = None \<longleftrightarrow> mesh s = None"
    "bufferElementSize s' = bufferElementSize s" "same_lengths s s'"
  shows "storage_inv s'"
  using assms by (auto simp: storage_inv_def same_lengths_def)

lemma updateCount_Inr:
  assumes "updateCount s = Inr s'"
  shows "buckets s \<noteq> []" "mesh s' = None \<longleftrightarrow> mesh s = None"
    "bufferElementSize s' = bufferElementSize s" "same_lengths s s'"
    "nextUpdateTime s' = nextUpdateTime s" "timers s' = timers s"
    "nextUpdateTimeoutRef s' = nextUpdateTimeoutRef s" "updateRuns s' = updateRuns s"
    "elementCount s' = elementCount s" "buckets s' = buckets s"
  using assms
  by (auto simp: updateCount_def Let_def same_lengths_def split: list.splits option.splits)

lemma requestUpdateNextFrame_fields [simp]:
  "mesh (requestUpdateNextFrame s) = mesh s"
  "bufferElementSize (requestUpdateNextFrame s) = bufferElementSize s"
  "elementCount (requestUpdateNextFrame s) = elementCount s"
  "buckets (requestUpdateNextFrame s) = buckets s"
  "instanceMatrix (requestUpdateNextFrame s) = instanceMatrix s"
  "instanceData (requestUpdateNextFrame s) = instanceData s"
  "instanceClipping (requestUpdateNextFrame s) = instanceClipping s"
  "updateRuns (requestUpdateNextFrame s) = updateRuns s"
  "nextUpdateTime (requestUpdateNextFrame s) = Some NextFrame"
  "nextUpdateTimeoutRef (requestUpdateNextFrame s) = None"
  "timers (requestUpdateNextFrame s) = clearTimeout (nextUpdateTimeoutRef s) (timers s)"
  by (simp_all add: requestUpdateNextFrame_def)

lemma requestUpdate_fields [simp]:
  "mesh (requestUpdate t now s) = mesh s"
  "bufferElementSize (requestUpdate t now s) = bufferElementSize s"
  "elementCount (requestUpdate t now s) = elementCount s"
  "buckets (requestUpdate t now s) = buckets s"
  "instanceMatrix (requestUpdate t now s) = instanceMatrix s"
  "instanceData (requestUpdate t now s) = instanceData s"
  "instanceClipping (requestUpdate t now s) = instanceClipping s"
  "updateRuns (requestUpdate t now s) = updateRuns s"
  by (simp_all add: requestUpdate_def Let_def)

lemma clearTimeout_single: "clearTimeout (Some h) [(h, d)] = []"
  by (simp add: clearTimeout_def)

lemma schedule_inv_requestUpdateNextFrame:
  "schedule_inv s \<Longrightarrow> schedule_inv (requestUpdateNextFrame s)
     \<and> timers (requestUpdateNextFrame s) = []"
  by (auto simp: schedule_inv_def requestUpdateNextFrame_def clearTimeout_def
      split: option.splits update_time.splits)

lemma schedule_inv_requestUpdate:
  "schedule_inv s \<Longrightarrow> schedule_inv (requestUpdate t now s)"
  by (auto simp: schedule_inv_def requestUpdate_def clearTimeout_def Let_def
      split: option.splits update_time.splits)

lemma schedule_inv_timeout: "schedule_inv s \<Longrightarrow> schedule_inv (timeout h s)"
  by (auto simp: schedule_inv_def timeout_def requestUpdateNextFrame_def clearTimeout_def
      split: option.splits update_time.splits)

lemma schedule_inv_cong:
  assumes "schedule_inv s" "nextUpdateTime s' = nextUpdateTime s" "timers s' = timers s"
    "nextUpdateTimeoutRef s' = nextUpdateTimeoutRef s"
  shows "schedule_inv s'"
  using assms by (auto simp: schedule_inv_def split: option.splits update_time.splits)

lemma insert_panel_Inr:
  assumes "insert_panel A k p s = Inr s'"
  shows "\<exists>needs bs cs s1.
      alloc_add A (buckets s) k p = Inr (needs, bs, cs) \<and>
      apply_calls A cs (s\<lparr>elementCount := elementCount s + 1, buckets := bs\<rparr>) = Inr s1 \<and>
      (if needs then s' = requestUpdateNextFrame s1 else updateCount s1 = Inr s')"
proof (cases "alloc_add A (buckets s) k p")
  case (Inl e)
  with assms show ?thesis by (simp add: insert_panel_def Let_def)
next
  case (Inr r)
  obtain needs bs cs where r: "r = (needs, bs, cs)" by (cases r)
  from assms Inr r show ?thesis
    by (cases needs) (auto simp: insert_panel_def Let_def bindE_eq_Inr)
qed

lemma delete_panel_Inr:
  assumes "delete_panel A k i p now s = Inr s'"
  shows "\<exists>needs bs cs s1.
      alloc_remove A (buckets s) k p i = Inr (needs, bs, cs) \<and>
      apply_calls A cs (s\<lparr>elementCount := elementCount s - 1, buckets := bs\<rparr>) = Inr s1 \<and>
      (if needs then s' = requestUpdate 1000 now s1 else updateCount s1 = Inr s')"
proof (cases "alloc_remove A (buckets s) k p i")
  case (Inl e)
  with assms show ?thesis by (simp add: delete_panel_def Let_def)
next
  case (Inr r)
  obtain needs bs cs where r: "r = (needs, bs, cs)" by (cases r)
  from assms Inr r show ?thesis
    by (cases needs) (auto simp: delete_panel_def Let_def bindE_eq_Inr)
qed

lemma rearrange_lengths: "rearrange A s = Inr s' \<Longrightarrow> same_lengths s s'"
  by (auto simp: rearrange_def same_lengths_def split: prod.splits dest!: apply_calls_lengths)

lemma resize_storage: "resize A s = Inr s' \<Longrightarrow> storage_inv s'"
  by (auto simp: storage_inv_def dest: resize_fields)

lemma setDrawCount_storage: "setDrawCount s = Inr s' \<Longrightarrow> storage_inv s \<Longrightarrow> storage_inv s'"
  by (auto simp: setDrawCount_eq_Inr storage_inv_def)

lemma in_place_positive:
  assumes "\<not> grows s" "\<not> shrinks s" "0 \<le> bufferElementSize s"
  shows "1 \<le> bufferElementSize s" "1 \<le> elementCount s"
proof -
  from assms(1) have le: "elementCount s \<le> bufferElementSize s" by (simp add: grows_def)
  from assms(1,2) have "\<not> 3 * elementCount s \<le> bufferElementSize s"
    by (simp add: shrinks_def third_le_iff)
  with le assms(3) show "1 \<le> bufferElementSize s" "1 \<le> elementCount s" by linarith+
qed

lemma update_storage:
  assumes "storage_inv s" and "update A s = Inr s'"
  shows "storage_inv s'"
proof (cases "elementCount s = 0")
  case True
  with assms(2) have "s' = s\<lparr>updateRuns := updateRuns s + 1,
        mesh := map_option (\<lambda>m. m\<lparr>visible := False\<rparr>) (mesh s)\<rparr>"
    by (simp add: update_zero)
  with assms(1) show ?thesis by (auto simp: storage_inv_def)
next
  case False
  let ?s = "s\<lparr>updateRuns := updateRuns s + 1\<rparr>"
  have inv: "storage_inv ?s" using assms(1) by (simp add: storage_inv_def)
  from assms(2) False obtain s2 where
    body: "(if grows s then bindE (resize A ?s) (rearrange A)
            else if shrinks s then bindE (rearrange A ?s) (resize A)
            else rearrange A ?s) = Inr s2"
    and fin: "setDrawCount s2 = Inr s'"
    by (auto simp: update_nonzero bindE_eq_Inr)
  have "storage_inv s2"
  proof (cases "grows s")
    case True
    with body obtain s1 where r: "resize A ?s = Inr s1" and a: "rearrange A s1 = Inr s2"
      by (auto simp: bindE_eq_Inr)
    from resize_storage[OF r] rearrange_fields(1,3)[OF a] rearrange_lengths[OF a]
    show ?thesis by (auto intro: storage_inv_cong)
  next
    case ng: False
    show ?thesis
    proof (cases "shrinks s")
      case True
      with ng body obtain s1 where a: "rearrange A ?s = Inr s1" and r: "resize A s1 = Inr s2"
        by (auto simp: bindE_eq_Inr)
      from resize_storage[OF r] show ?thesis .
    next
      case False
      with ng body have a: "rearrange A ?s = Inr s2" by simp
      from inv rearrange_fields(1,3)[OF a] rearrange_lengths[OF a]
      show ?thesis by (auto intro: storage_inv_cong)
    qed
  qed
  with fin show ?thesis by (rule setDrawCount_storage)
qed

lemma update_schedule:
  assumes "update A s = Inr s'"
  shows "nextUpdateTime s' = nextUpdateTime s \<and> timers s' = timers s
       \<and> nextUpdateTimeoutRef s' = nextUpdateTimeoutRef s \<and> updateRuns s' = updateRuns s + 1"
proof (cases "elementCount s = 0")
  case True
  with assms show ?thesis by (auto simp: update_zero)
next
  case False
  from update_capacity_aux(4,5,6,7)[OF assms False] show ?thesis by simp
qed

lemma step_invariants:
  assumes "storage_inv s" "schedule_inv s" "step A ev s = Inr s'"
  shows "storage_inv s' \<and> schedule_inv s'"
proof (cases ev)
  case (Insert k p)
  with assms(3) have "insert_panel A k p s = Inr s'" by simp
  from insert_panel_Inr[OF this] obtain needs bs cs s1 where
    calls: "apply_calls A cs (s\<lparr>elementCount := elementCount s + 1, buckets := bs\<rparr>) = Inr s1"
    and fin: "if needs then s' = requestUpdateNextFrame s1 else updateCount s1 = Inr s'"
    by blast
  let ?s0 = "s\<lparr>elementCount := elementCount s + 1, buckets := bs\<rparr>"
  have st0: "storage_inv ?s0" using assms(1) by (simp add: storage_inv_def)
  have sc0: "schedule_inv ?s0" by (rule schedule_inv_cong[OF assms(2)]) simp_all
  note ao = arrays_only_fields[OF apply_calls_arrays_only[OF calls]]
  have st1: "storage_inv s1"
    using st0 ao(1,4) apply_calls_lengths[OF calls] by (auto intro: storage_inv_cong)
  have sc1: "schedule_inv s1" using sc0 ao(5,6,7) by (auto intro: schedule_inv_cong)
  show ?thesis
  proof (cases needs)
    case True
    with fin have s': "s' = requestUpdateNextFrame s1" by simp
    have "storage_inv s'" using st1 unfolding s' by (simp add: storage_inv_def)
    moreover have "schedule_inv s'" unfolding s'
      using schedule_inv_requestUpdateNextFrame[OF sc1] by simp
    ultimately show ?thesis by simp
  next
    case False
    with fin have u: "updateCount s1 = Inr s'" by simp
    from st1 updateCount_Inr(2,3,4)[OF u] have "storage_inv s'" by (auto intro: storage_inv_cong)
    moreover from sc1 updateCount_Inr(5,6,7)[OF u] have "schedule_inv s'"
      by (auto intro: schedule_inv_cong)
    ultimately show ?thesis by simp
  qed
next
  case (Delete k i p now)
  with assms(3) have "delete_panel A k i p now s = Inr s'" by simp
  from delete_panel_Inr[OF this] obtain needs bs cs s1 where
    calls: "apply_calls A cs (s\<lparr>elementCount := elementCount s - 1, buckets := bs\<rparr>) = Inr s1"
    and fin: "if needs then s' = requestUpdate 1000 now s1 else updateCount s1 = Inr s'"
    by blast
  let ?s0 = "s\<lparr>elementCount := elementCount s - 1, buckets := bs\<rparr>"
  have st0: "storage_inv ?s0" using assms(1) by (simp add: storage_inv_def)
  have sc0: "schedule_inv ?s0" by (rule schedule_inv_cong[OF assms(2)]) simp_all
  note ao = arrays_only_fields[OF apply_calls_arrays_only[OF calls]]
  have st1: "storage_inv s1"
    using st0 ao(1,4) apply_calls_lengths[OF calls] by (auto intro: storage_inv_cong)
  have sc1: "schedule_inv s1" using sc0 ao(5,6,7) by (auto intro: schedule_inv_cong)
  show ?thesis
  proof (cases needs)
    case True
    with fin have s': "s' = requestUpdate 1000 now s1" by simp
    have "storage_inv s'" using st1 unfolding s' by (simp add: storage_inv_def)
    moreover have "schedule_inv s'" unfolding s'
      using schedule_inv_requestUpdate[OF sc1] by simp
    ultimately show ?thesis by simp
  next
    case False
    with fin have u: "updateCount s1 = Inr s'" by simp
    from st1 updateCount_Inr(2,3,4)[OF u] have "storage_inv s'" by (auto intro: storage_inv_cong)
    moreover from sc1 updateCount_Inr(5,6,7)[OF u] have "schedule_inv s'"
      by (auto intro: schedule_inv_cong)
    ultimately show ?thesis by simp
  qed
next
  case Frame
  show ?thesis
  proof (cases "nextUpdateTime s = Some NextFrame")
    case False
    with Frame assms show ?thesis by (simp add: onFrame_def)
  next
    case True
    let ?s0 = "s\<lparr>nextUpdateTime := None\<rparr>"
    from True Frame assms(3) have u: "update A ?s0 = Inr s'" by (simp add: onFrame_def)
    have st0: "storage_inv ?s0" using assms(1) by (simp add: storage_inv_def)
    have sc0: "schedule_inv ?s0" using assms(2) True by (simp add: schedule_inv_def)
    from update_storage[OF st0 u] have "storage_inv s'" .
    moreover from sc0 update_schedule[OF u] have "schedule_inv s'"
      by (auto intro: schedule_inv_cong)
    ultimately show ?thesis by simp
  qed
next
  case (Timeout h)
  with assms(3) have s': "s' = timeout h s" by simp
  have "storage_inv s'" using assms(1) unfolding s'
    by (simp add: storage_inv_def timeout_def requestUpdateNextFrame_def)
  moreover have "schedule_inv s'" unfolding s' using assms(2) by (rule schedule_inv_timeout)
  ultimately show ?thesis by simp
next
  case (SetDepthTest dt)
  with assms show ?thesis
    by (auto simp: setDepthTest_def storage_inv_def schedule_inv_def)
next
  case (SetRenderOrder ro)
  with assms show ?thesis
    by (auto simp: setRenderOrder_def Let_def storage_inv_def schedule_inv_def split: option.splits)
qed

lemma reachable_invariants: "reachable A s \<Longrightarrow> storage_inv s \<and> schedule_inv s"
proof (induction rule: reachable.induct)
  case (reachable_init ro dt)
  show ?case by (simp add: init_def storage_inv_def schedule_inv_def)
next
  case (reachable_step s ev s')
  then show ?case using step_invariants by blast
qed

lemma update_no_mesh_error:
  assumes "storage_inv s"
  shows "update A s \<noteq> Inl MeshUndefined"
proof (cases "elementCount s = 0")
  case True
  then show ?thesis by (simp add: update_zero)
next
  case False
  let ?s = "s\<lparr>updateRuns := updateRuns s + 1\<rparr>"
  let ?body = "if grows s then bindE (resize A ?s) (rearrange A)
            else if shrinks s then bindE (rearrange A ?s) (resize A)
            else rearrange A ?s"
  have inv: "storage_inv ?s" using assms by (simp add: storage_inv_def)
  have no_err: "?body \<noteq> Inl MeshUndefined"
    by (auto simp: bindE_eq_Inl dest: resize_error rearrange_error)
  have defined: "mesh s2 \<noteq> None" if body: "?body = Inr s2" for s2
  proof (cases "grows s")
    case True
    with body obtain s1 where r: "resize A ?s = Inr s1" and a: "rearrange A s1 = Inr s2"
      by (auto simp: bindE_eq_Inr)
    from resize_fields(3)[OF r] rearrange_fields(1)[OF a] show ?thesis by simp
  next
    case ng: False
    show ?thesis
    proof (cases "shrinks s")
      case True
      with ng body obtain s1 where r: "resize A s1 = Inr s2" by (auto simp: bindE_eq_Inr)
      from resize_fields(3)[OF r] show ?thesis .
    next
      case False
      with ng body have a: "rearrange A ?s = Inr s2" by simp
      from in_place_positive(1)[OF ng False] assms have "mesh s \<noteq> None"
        by (auto simp: storage_inv_def)
      with rearrange_fields(1)[OF a] show ?thesis by simp
    qed
  qed
  show ?thesis
  proof
    assume "update A s = Inl MeshUndefined"
    with False have "bindE ?body setDrawCount = Inl MeshUndefined" by (simp add: update_nonzero)
    with no_err obtain s2 where "?body = Inr s2" and "setDrawCount s2 = Inl MeshUndefined"
      by (auto simp: bindE_eq_Inl)
    with defined show False by (auto simp: setDrawCount_def split: option.splits)
  qed
qed

subsection \<open>Evaluation of concrete runs\<close>

lemmas eval_defs = example_env_def sortedBuckets_def insert_panel_def delete_panel_def onFrame_def
  update_def resize_def rearrange_def setDrawCount_def updateCount_def requestUpdate_def
  requestUpdateNextFrame_def timeout_def clearTimeout_def init_def
  addToSortedBuckets_def removeFromSortedBuckets_def updateSortedBucketsAllocation_def
  resizeSortedBucketsSpace_def append_element_def new_bucket_def logical_end_def
  locate_def remove_at_def set_last_slack_def settle_def down_copies_def up_copies_def
  activations_def pending_def activateElement_def clearBufferAt_def bufferCopyWithin_def
  copyWithinAttribute_def array_set_def array_fill0_def array_copyWithin_def reallocate_def
  Let_def enumerate_eq_zip

subsection \<open>Bursts of deletions\<close>

lemma run_reachable: "reachable A s \<Longrightarrow> run A evs s = Inr s' \<Longrightarrow> reachable A s'"
proof (induction evs arbitrary: s)
  case Nil
  then show ?case by simp
next
  case (Cons ev evs)
  then obtain s1 where 1: "step A ev s = Inr s1" and 2: "run A evs s1 = Inr s'"
    by (auto simp: bindE_eq_Inr)
  from Cons.prems(1) 1 have "reachable A s1" by (rule reachable_step)
  from Cons.IH[OF this 2] show ?case .
qed

lemma requestUpdate_pending: "nextUpdateTime (requestUpdate t now s) \<noteq> None"
  by (auto simp: requestUpdate_def Let_def split: option.splits update_time.splits)

lemma slow_delete_step:
  assumes "schedule_inv s" and "alloc_remove A (buckets s) k p i = Inr (True, bs, cs)"
    and "delete_panel A k i p now s = Inr s1"
  shows "schedule_inv s1 \<and> updateRuns s1 = updateRuns s \<and> nextUpdateTime s1 \<noteq> None"
proof -
  from delete_panel_Inr[OF assms(3)] assms(2) obtain s0 where
    calls: "apply_calls A cs (s\<lparr>elementCount := elementCount s - 1, buckets := bs\<rparr>) = Inr s0"
    and s1: "s1 = requestUpdate 1000 now s0"
    by auto
  let ?s = "s\<lparr>elementCount := elementCount s - 1, buckets := bs\<rparr>"
  note ao = arrays_only_fields[OF apply_calls_arrays_only[OF calls]]
  have "schedule_inv ?s" by (rule schedule_inv_cong[OF assms(1)]) simp_all
  with ao(5,6,7) have "schedule_inv s0" by (auto intro: schedule_inv_cong)
  then have "schedule_inv s1" unfolding s1 by (rule schedule_inv_requestUpdate)
  moreover have "updateRuns s1 = updateRuns s" unfolding s1 using ao(9) by simp
  moreover have "nextUpdateTime s1 \<noteq> None" unfolding s1 by (rule requestUpdate_pending)
  ultimately show ?thesis by simp
qed

lemma slow_deletes_pending:
  assumes "slow_deletes A ds s = Some s1" and "schedule_inv s"
  shows "schedule_inv s1 \<and> updateRuns s1 = updateRuns s \<and> (ds \<noteq> [] \<longrightarrow> nextUpdateTime s1 \<noteq> None)"
  using assms
proof (induction ds arbitrary: s)
  case Nil
  then show ?case by simp
next
  case (Cons d ds)
  obtain k i p now where d: "d = (k, i, p, now)" by (cases d)
  from Cons.prems(1) d obtain bs cs s0 where
    r: "alloc_remove A (buckets s) k p i = Inr (True, bs, cs)"
    and del: "delete_panel A k i p now s = Inr s0"
    and rest: "slow_deletes A ds s0 = Some s1"
    by (auto split: sum.splits bool.splits if_splits)
  from slow_delete_step[OF Cons.prems(2) r del]
  have 0: "schedule_inv s0" "updateRuns s0 = updateRuns s" "nextUpdateTime s0 \<noteq> None" by simp_all
  from Cons.IH[OF rest 0(1)]
  have 1: "schedule_inv s1" "updateRuns s1 = updateRuns s0"
    "ds \<noteq> [] \<longrightarrow> nextUpdateTime s1 \<noteq> None" by simp_all
  have "nextUpdateTime s1 \<noteq> None"
  proof (cases ds)
    case Nil
    with rest 0(3) show ?thesis by simp
  next
    case (Cons a list)
    with 1(3) show ?thesis by simp
  qed
  with 0 1 show ?case by simp
qed

lemma schedule_inv_timers: "schedule_inv s \<Longrightarrow> length (timers s) \<le> 1"
  by (auto simp: schedule_inv_def)

lemma schedule_inv_flag: "schedule_inv s \<Longrightarrow> nextUpdateTime s = Some NextFrame \<Longrightarrow> timers s = []"
  by (auto simp: schedule_inv_def)

lemma pending_then_frame:
  assumes inv: "schedule_inv s1" and pend: "nextUpdateTime s1 \<noteq> None"
    and h: "timers s1 = [] \<or> h \<in> fst ` set (timers s1)"
    and r: "run A [Timeout h, Frame] s1 = Inr s2"
  shows "updateRuns s2 = updateRuns s1 + 1 \<and> nextUpdateTime s2 = None \<and> timers s2 = []
       \<and> onFrame A s2 = Inr s2"
proof -
  let ?t = "timeout h s1"
  have t: "nextUpdateTime ?t = Some NextFrame \<and> timers ?t = [] \<and> updateRuns ?t = updateRuns s1"
  proof (cases "nextUpdateTime s1")
    case None
    with pend show ?thesis by simp
  next
    case (Some y)
    show ?thesis
    proof (cases y)
      case NextFrame
      with Some inv show ?thesis
        by (auto simp: schedule_inv_def timeout_def)
    next
      case (At t0)
      with Some inv h show ?thesis
        by (auto simp: schedule_inv_def timeout_def requestUpdateNextFrame_def clearTimeout_def)
    qed
  qed
  from r have "onFrame A ?t = Inr s2" by (auto simp: bindE_eq_Inr)
  with t have u: "update A (?t\<lparr>nextUpdateTime := None\<rparr>) = Inr s2" by (simp add: onFrame_def)
  from update_schedule[OF u] t show ?thesis by (simp add: onFrame_def)
qed

subsection \<open>Reallocation keeps the slots\<close>




subsection \<open>The allocator: the search for the bucket\<close>






subsection \<open>The allocator: contiguity\<close>







subsection \<open>The allocator: insert\<close>







subsection \<open>The allocator: remove\<close>










subsection \<open>The allocator: rearrange and resize\<close>

lemma recompute_offsets_maps [simp]:
  "map bucket_index (recompute_offsets off bs) = map bucket_index bs"
  "map elements (recompute_offsets off bs) = map elements bs"
  "map slack (recompute_offsets off bs) = map slack bs"
  "length (recompute_offsets off bs) = length bs"
  by (induction bs arbitrary: off) simp_all



lemma set_last_slack_Nil [simp]: "set_last_slack n [] = []"
  by (simp add: set_last_slack_def)

lemma set_last_slack_snoc [simp]: "set_last_slack n (ys @ [y]) = ys @ [y\<lparr>slack := n\<rparr>]"
  by (cases ys) (simp_all add: set_last_slack_def)


lemma in_place_slack [simp]: "in_place (b\<lparr>slack := x\<rparr>) = in_place b"
  by (simp add: in_place_def)



lemma recompute_offsets_lengths [simp]:
  "map (\<lambda>b. length (elements b)) (recompute_offsets off bs) = map (\<lambda>b. length (elements b)) bs"
  by (induction bs arbitrary: off) simp_all

lemma settle_fields [simp]:
  "bucket_index (settle b) = bucket_index b" "offset (settle b) = offset b"
  "length (elements (settle b)) = length (elements b)" "slack (settle b) = 0"
  by (simp_all add: settle_def)







subsection \<open>The class over the allocator of the specification\<close>

lemma sortedBuckets_fields [simp]:
  "alloc_add (sortedBuckets dd c0) = addToSortedBuckets"
  "alloc_remove (sortedBuckets dd c0) = removeFromSortedBuckets"
  "alloc_update (sortedBuckets dd c0) = updateSortedBucketsAllocation"
  "alloc_resize (sortedBuckets dd c0) = resizeSortedBucketsSpace"
  "defaultData (sortedBuckets dd c0) = dd"
  by (simp_all add: sortedBuckets_def)


lemma packed_Nil [simp]: "packed []"
  by (simp add: packed_def contiguous_def spans_def)













section \<open>The claims\<close>




text \<open>
  Claim C2 (capacity hysteresis), as amended. Let \<open>n\<close> be the element count and \<open>cap\<close> the
  capacity when \<^verbatim>\<open>update()\<close> is called, and let the call return. If \<open>n = 0\<close> the capacity is
  unchanged, whatever \<open>cap\<close> is. If \<open>n \<ge> 1\<close>: when \<open>n > cap\<close> or \<open>n \<le> cap / 3\<close> the new capacity
  is \<open>\<lceil>n * 1.5\<rceil>\<close>, otherwise it is \<open>cap\<close>; and in each case the new capacity is at least \<open>n\<close>.
\<close>

theorem update_capacity_hysteresis:
  assumes "update A s = Inr s'"
  shows "(elementCount s = 0 \<longrightarrow> bufferElementSize s' = bufferElementSize s) \<and>
         (1 \<le> elementCount s \<longrightarrow>
            (bufferElementSize s < elementCount s \<longrightarrow>
               bufferElementSize s' = \<lceil>real_of_int (elementCount s) * 1.5\<rceil>) \<and>
            (real_of_int (elementCount s) \<le> real_of_int (bufferElementSize s) / 3 \<longrightarrow>
               bufferElementSize s' = \<lceil>real_of_int (elementCount s) * 1.5\<rceil>) \<and>
            (\<not> bufferElementSize s < elementCount s \<and>
             \<not> real_of_int (elementCount s) \<le> real_of_int (bufferElementSize s) / 3 \<longrightarrow>
               bufferElementSize s' = bufferElementSize s) \<and>
            elementCount s \<le> bufferElementSize s')"
proof (cases "elementCount s = 0")
  case True
  with assms show ?thesis by (auto simp: update_zero)
next
  case False
  note cap = update_capacity_aux(1)[OF assms False]
  have "elementCount s \<le> bufferElementSize s'" if "1 \<le> elementCount s"
    using capacity_covers[OF that, of "bufferElementSize s"] cap
    by (auto simp: grows_def shrinks_def split: if_splits)
  with cap False show ?thesis by (auto simp: grows_def shrinks_def)
qed

text \<open>
  Witness of C2. The theorem at four states: a growing update (1 element, capacity 0), an update in place
  (2 elements, capacity 2), a shrinking update (1 element, capacity 5) and an update of a
  group without elements.
\<close>

theorem update_capacity_hysteresis_witness:
  "(\<exists>s s'. run example_env [Insert 0 1] (init 0 True) = Inr s \<and> update example_env s = Inr s' \<and>
      elementCount s = 1 \<and> bufferElementSize s = 0 \<and> bufferElementSize s' = 2) \<and>
   (\<exists>s s'. run example_env [Insert 0 1, Frame, Insert 0 2] (init 0 True) = Inr s \<and>
      update example_env s = Inr s' \<and>
      elementCount s = 2 \<and> bufferElementSize s = 2 \<and> bufferElementSize s' = 2) \<and>
   (\<exists>s s'. run example_env
        [Insert 0 1, Insert 1 2, Insert 2 3, Frame, Delete 0 None 1 0, Delete 1 None 2 0]
        (init 0 True) = Inr s \<and>
      update example_env s = Inr s' \<and>
      elementCount s = 1 \<and> bufferElementSize s = 5 \<and> bufferElementSize s' = 2) \<and>
   (\<exists>s'. update example_env drained = Inr s' \<and> bufferElementSize s' = 3)"
proof -
  have "\<exists>s. run example_env [Insert 0 1] (init 0 True) = Inr s \<and> elementCount s = 1 \<and>
      bufferElementSize s = 0 \<and> (\<exists>s'. update example_env s = Inr s')"
    by (simp add: eval_defs ceiling_three_halves)
  then obtain s1 s1' where 1: "run example_env [Insert 0 1] (init 0 True) = Inr s1"
    "elementCount s1 = 1" "bufferElementSize s1 = 0" "update example_env s1 = Inr s1'"
    by blast
  have "\<exists>s. run example_env [Insert 0 1, Frame, Insert 0 2] (init 0 True) = Inr s \<and>
      elementCount s = 2 \<and> bufferElementSize s = 2 \<and> (\<exists>s'. update example_env s = Inr s')"
    by (simp add: eval_defs ceiling_three_halves)
  then obtain s2 s2' where 2:
    "run example_env [Insert 0 1, Frame, Insert 0 2] (init 0 True) = Inr s2"
    "elementCount s2 = 2" "bufferElementSize s2 = 2" "update example_env s2 = Inr s2'"
    by blast
  have "\<exists>s. run example_env
        [Insert 0 1, Insert 1 2, Insert 2 3, Frame, Delete 0 None 1 0, Delete 1 None 2 0]
        (init 0 True) = Inr s \<and>
      elementCount s = 1 \<and> bufferElementSize s = 5 \<and> (\<exists>s'. update example_env s = Inr s')"
    by (simp add: eval_defs ceiling_three_halves)
  then obtain s3 s3' where 3:
    "run example_env
        [Insert 0 1, Insert 1 2, Insert 2 3, Frame, Delete 0 None 1 0, Delete 1 None 2 0]
        (init 0 True) = Inr s3"
    "elementCount s3 = 1" "bufferElementSize s3 = 5" "update example_env s3 = Inr s3'"
    by blast
  have "\<exists>s'. update example_env drained = Inr s'" by (simp add: drained_def update_def)
  then obtain s4' where 4: "update example_env drained = Inr s4'" by blast
  have d: "elementCount drained = 0" "bufferElementSize drained = 3" by (simp_all add: drained_def)
  from update_capacity_hysteresis[OF 1(4)] 1(2,3)
  have c1: "bufferElementSize s1' = 2" by (simp add: ceiling_three_halves)
  from update_capacity_hysteresis[OF 2(4)] 2(2,3)
  have c2: "bufferElementSize s2' = 2" by simp
  from update_capacity_hysteresis[OF 3(4)] 3(2,3)
  have c3: "bufferElementSize s3' = 2" by (simp add: ceiling_three_halves)
  from update_capacity_hysteresis[OF 4] d
  have c4: "bufferElementSize s4' = 3" by simp
  from 1 2 3 4 c1 c2 c3 c4 show ?thesis by blast
qed

text \<open>
  Counterexample to C2. C2 as stated has no condition on \<open>n\<close> in its second case. With no element left and capacity
  3 the test \<open>n \<le> cap / 3\<close> holds and \<open>\<lceil>n * 1.5\<rceil> = 0\<close>, but \<^verbatim>\<open>update()\<close> returns at its first
  test and the capacity stays 3.
\<close>

theorem update_capacity_counterexample:
  "real_of_int (elementCount drained) \<le> real_of_int (bufferElementSize drained) / 3 \<and>
   \<lceil>real_of_int (elementCount drained) * 1.5\<rceil> = 0 \<and>
   (\<exists>s'. update example_env drained = Inr s' \<and> bufferElementSize s' = 3)"
  by (simp add: drained_def update_def)



text \<open>
  Claim C4 (an insert cancels a pending delayed compaction), as amended. In a reachable state,
  an insert for which the allocator reports that a rearrangement is needed leaves no timeout
  pending, clears \<^verbatim>\<open>nextUpdateTimeoutRef\<close> and sets the next-frame request, so the next
  \<^verbatim>\<open>onFrame()\<close> is the call of \<^verbatim>\<open>update()\<close>.
\<close>

theorem insert_cancels_pending_timer:
  assumes "reachable A s" and "alloc_add A (buckets s) k p = Inr (True, bs, cs)"
    and "insert_panel A k p s = Inr s'"
  shows "timers s' = [] \<and> nextUpdateTimeoutRef s' = None \<and> nextUpdateTime s' = Some NextFrame \<and>
         updateRuns s' = updateRuns s \<and>
         onFrame A s' = update A (s'\<lparr>nextUpdateTime := None\<rparr>) \<and>
         (\<forall>s2. onFrame A s' = Inr s2 \<longrightarrow> updateRuns s2 = updateRuns s + 1)"
proof -
  from reachable_invariants[OF assms(1)] have inv: "schedule_inv s" by simp
  from insert_panel_Inr[OF assms(3)] assms(2) obtain s0 where
    calls: "apply_calls A cs (s\<lparr>elementCount := elementCount s + 1, buckets := bs\<rparr>) = Inr s0"
    and s': "s' = requestUpdateNextFrame s0"
    by auto
  let ?s = "s\<lparr>elementCount := elementCount s + 1, buckets := bs\<rparr>"
  note ao = arrays_only_fields[OF apply_calls_arrays_only[OF calls]]
  have "schedule_inv ?s" by (rule schedule_inv_cong[OF inv]) simp_all
  with ao(5,6,7) have "schedule_inv s0" by (auto intro: schedule_inv_cong)
  from schedule_inv_requestUpdateNextFrame[OF this]
  have 1: "timers s' = []" unfolding s' by simp
  have 2: "nextUpdateTimeoutRef s' = None" "nextUpdateTime s' = Some NextFrame"
    "updateRuns s' = updateRuns s" unfolding s' using ao(9) by simp_all
  have 3: "onFrame A s' = update A (s'\<lparr>nextUpdateTime := None\<rparr>)"
    using 2(2) by (simp add: onFrame_def)
  have 4: "\<forall>s2. onFrame A s' = Inr s2 \<longrightarrow> updateRuns s2 = updateRuns s + 1"
  proof (intro allI impI)
    fix s2
    assume "onFrame A s' = Inr s2"
    with 3 have "update A (s'\<lparr>nextUpdateTime := None\<rparr>) = Inr s2" by simp
    from update_schedule[OF this] 2(3) show "updateRuns s2 = updateRuns s + 1" by simp
  qed
  from 1 2 3 4 show ?thesis by blast
qed

text \<open>
  Witness of C4. The theorem in a state where a delete has scheduled the timeout 0: the insert of a panel into
  a bucket that does not exist yet needs a rearrangement and cancels it.
\<close>

theorem insert_cancels_pending_timer_witness:
  "\<exists>s s'. run example_env [Insert 0 1, Insert 1 2, Frame, Delete 0 None 1 0] (init 0 True) = Inr s \<and>
     timers s = [(0, 1000)] \<and> nextUpdateTime s = Some (At 1000) \<and>
     insert_panel example_env 0 5 s = Inr s' \<and>
     timers s' = [] \<and> nextUpdateTimeoutRef s' = None \<and> nextUpdateTime s' = Some NextFrame \<and>
     onFrame example_env s' = update example_env (s'\<lparr>nextUpdateTime := None\<rparr>)"
proof -
  have "\<exists>s. run example_env [Insert 0 1, Insert 1 2, Frame, Delete 0 None 1 0] (init 0 True) = Inr s \<and>
     timers s = [(0, 1000)] \<and> nextUpdateTime s = Some (At 1000) \<and>
     (\<exists>bs cs. alloc_add example_env (buckets s) 0 5 = Inr (True, bs, cs)) \<and>
     (\<exists>s'. insert_panel example_env 0 5 s = Inr s')"
    by (simp add: eval_defs ceiling_three_halves)
  then obtain s bs cs s' where
    s: "run example_env [Insert 0 1, Insert 1 2, Frame, Delete 0 None 1 0] (init 0 True) = Inr s"
    and t: "timers s = [(0, 1000)]" "nextUpdateTime s = Some (At 1000)"
    and a: "alloc_add example_env (buckets s) 0 5 = Inr (True, bs, cs)"
    and i: "insert_panel example_env 0 5 s = Inr s'"
    by blast
  have r: "reachable example_env s" by (rule run_reachable[OF reachable_init s])
  from insert_cancels_pending_timer[OF r a i] s t i show ?thesis by blast
qed

text \<open>
  Counterexample to C4. C4 as stated speaks of every insert. In the same state the insert of a panel into the last
  bucket, which has a free slot, is answered "no rearrangement needed": \<^verbatim>\<open>insert\<close> calls
  \<^verbatim>\<open>updateCount()\<close> and returns, the timeout 0 stays pending, and the next \<^verbatim>\<open>onFrame()\<close> does
  nothing.
\<close>

theorem insert_cancels_pending_timer_counterexample:
  "\<exists>s s'. run example_env [Insert 0 1, Insert 1 2, Frame, Delete 0 None 1 0] (init 0 True) = Inr s \<and>
     timers s = [(0, 1000)] \<and> nextUpdateTime s = Some (At 1000) \<and>
     insert_panel example_env 1 3 s = Inr s' \<and>
     timers s' = [(0, 1000)] \<and> nextUpdateTime s' = Some (At 1000) \<and>
     onFrame example_env s' = Inr s'"
  by (simp add: eval_defs ceiling_three_halves)

text \<open>
  Claim C5 (debounce coalescing). In every reachable state at most one timeout is pending, and
  the next-frame request and a pending timeout exclude each other. After any non-empty burst of
  deletions that each need a rearrangement, started in a reachable state, the same holds, an
  update is requested and \<^verbatim>\<open>update()\<close> has not run during the burst. When the pending timeout (if
  any) has fired and the next frame has come, \<^verbatim>\<open>update()\<close> has run exactly once, the request is
  cleared, no timeout is pending, and a further \<^verbatim>\<open>onFrame()\<close> changes nothing.
\<close>

theorem deletions_coalesce:
  assumes "reachable A s" and "ds \<noteq> []" and "slow_deletes A ds s = Some s1"
  shows "length (timers s) \<le> 1 \<and> (nextUpdateTime s = Some NextFrame \<longrightarrow> timers s = []) \<and>
         length (timers s1) \<le> 1 \<and> (nextUpdateTime s1 = Some NextFrame \<longrightarrow> timers s1 = []) \<and>
         nextUpdateTime s1 \<noteq> None \<and> updateRuns s1 = updateRuns s \<and>
         (\<forall>h s2. (timers s1 = [] \<or> h \<in> fst ` set (timers s1)) \<longrightarrow>
                 run A [Timeout h, Frame] s1 = Inr s2 \<longrightarrow>
                 updateRuns s2 = updateRuns s + 1 \<and> nextUpdateTime s2 = None \<and>
                 timers s2 = [] \<and> onFrame A s2 = Inr s2)"
proof -
  from reachable_invariants[OF assms(1)] have inv: "schedule_inv s" by simp
  from slow_deletes_pending[OF assms(3) inv] assms(2)
  have 1: "schedule_inv s1" "updateRuns s1 = updateRuns s" "nextUpdateTime s1 \<noteq> None"
    by simp_all
  have 2: "\<forall>h s2. (timers s1 = [] \<or> h \<in> fst ` set (timers s1)) \<longrightarrow>
                 run A [Timeout h, Frame] s1 = Inr s2 \<longrightarrow>
                 updateRuns s2 = updateRuns s + 1 \<and> nextUpdateTime s2 = None \<and>
                 timers s2 = [] \<and> onFrame A s2 = Inr s2"
  proof (intro allI impI)
    fix h s2
    assume h: "timers s1 = [] \<or> h \<in> fst ` set (timers s1)"
      and r: "run A [Timeout h, Frame] s1 = Inr s2"
    from pending_then_frame[OF 1(1) 1(3) h r] 1(2)
    show "updateRuns s2 = updateRuns s + 1 \<and> nextUpdateTime s2 = None \<and>
                 timers s2 = [] \<and> onFrame A s2 = Inr s2" by simp
  qed
  from schedule_inv_timers[OF inv] schedule_inv_flag[OF inv]
    schedule_inv_timers[OF 1(1)] schedule_inv_flag[OF 1(1)] 1(2,3) 2
  show ?thesis by blast
qed

text \<open>
  Witness of C5. The theorem at a burst of three deletions from the first of two buckets, at the times 0, 5
  and 7.
\<close>

theorem deletions_coalesce_witness:
  "\<exists>s s1 s2.
     run example_env [Insert 0 1, Insert 0 2, Insert 0 3, Insert 1 4, Frame] (init 0 True) = Inr s \<and>
     slow_deletes example_env [(0, None, 1, 0), (0, None, 2, 5), (0, None, 3, 7)] s = Some s1 \<and>
     timers s1 = [(0, 1000)] \<and> updateRuns s1 = updateRuns s \<and>
     run example_env [Timeout 0, Frame] s1 = Inr s2 \<and>
     updateRuns s2 = updateRuns s + 1 \<and> nextUpdateTime s2 = None \<and> timers s2 = [] \<and>
     onFrame example_env s2 = Inr s2"
proof -
  have "\<exists>s. run example_env [Insert 0 1, Insert 0 2, Insert 0 3, Insert 1 4, Frame] (init 0 True)
        = Inr s \<and>
      (\<exists>s1. slow_deletes example_env [(0, None, 1, 0), (0, None, 2, 5), (0, None, 3, 7)] s = Some s1
         \<and> timers s1 = [(0, 1000)] \<and> (\<exists>s2. run example_env [Timeout 0, Frame] s1 = Inr s2))"
    by (simp add: eval_defs ceiling_three_halves)
  then obtain s s1 s2 where
    s: "run example_env [Insert 0 1, Insert 0 2, Insert 0 3, Insert 1 4, Frame] (init 0 True) = Inr s"
    and s1: "slow_deletes example_env [(0, None, 1, 0), (0, None, 2, 5), (0, None, 3, 7)] s = Some s1"
    and t: "timers s1 = [(0, 1000)]"
    and s2: "run example_env [Timeout 0, Frame] s1 = Inr s2"
    by blast
  have r: "reachable example_env s" by (rule run_reachable[OF reachable_init s])
  have h: "timers s1 = [] \<or> 0 \<in> fst ` set (timers s1)" using t by simp
  from deletions_coalesce[OF r _ s1] h s2
  have "updateRuns s1 = updateRuns s \<and> updateRuns s2 = updateRuns s + 1 \<and>
        nextUpdateTime s2 = None \<and> timers s2 = [] \<and> onFrame example_env s2 = Inr s2"
    by blast
  with s s1 t s2 show ?thesis by blast
qed




text \<open>
  Claim C7 (draw count after \<^verbatim>\<open>update()\<close>). Without elements, \<^verbatim>\<open>update()\<close> returns, a mesh that
  exists is hidden, and the capacity, the three arrays and the buckets are unchanged. With at
  least one element, whenever \<^verbatim>\<open>update()\<close> returns the mesh exists, its draw count is the
  element count and it is visible.
\<close>

theorem update_draw_count:
  "(elementCount s = 0 \<longrightarrow>
      (\<exists>s'. update A s = Inr s' \<and>
            mesh s' = map_option (\<lambda>m. m\<lparr>visible := False\<rparr>) (mesh s) \<and>
            bufferElementSize s' = bufferElementSize s \<and>
            instanceMatrix s' = instanceMatrix s \<and> instanceData s' = instanceData s \<and>
            instanceClipping s' = instanceClipping s \<and> buckets s' = buckets s)) \<and>
   (1 \<le> elementCount s \<longrightarrow>
      (\<forall>s'. update A s = Inr s' \<longrightarrow>
            (\<exists>m. mesh s' = Some m \<and> count m = elementCount s \<and> visible m)))"
proof (intro conjI impI allI)
  assume "elementCount s = 0"
  then show "\<exists>s'. update A s = Inr s' \<and>
            mesh s' = map_option (\<lambda>m. m\<lparr>visible := False\<rparr>) (mesh s) \<and>
            bufferElementSize s' = bufferElementSize s \<and>
            instanceMatrix s' = instanceMatrix s \<and> instanceData s' = instanceData s \<and>
            instanceClipping s' = instanceClipping s \<and> buckets s' = buckets s"
    by (simp add: update_zero)
next
  fix s'
  assume "1 \<le> elementCount s" and u: "update A s = Inr s'"
  then have "elementCount s \<noteq> 0" by simp
  from update_capacity_aux(3)[OF u this]
  show "\<exists>m. mesh s' = Some m \<and> count m = elementCount s \<and> visible m" .
qed

text \<open>
  Witness of C7. The theorem at the group without elements and at a group with one element and no mesh yet.
\<close>

theorem update_draw_count_witness:
  "(\<exists>s'. update example_env drained = Inr s' \<and>
         mesh s' = Some \<lparr>count = 2, visible = False, mesh_renderOrder = 0\<rparr> \<and>
         bufferElementSize s' = 3 \<and> instanceMatrix s' = Some (replicate 48 0)) \<and>
   (\<exists>s s' m. run example_env [Insert 0 1] (init 0 True) = Inr s \<and> elementCount s = 1 \<and>
         update example_env s = Inr s' \<and> mesh s' = Some m \<and> count m = 1 \<and> visible m)"
proof -
  have d: "elementCount drained = 0" "bufferElementSize drained = 3"
    "mesh drained = Some \<lparr>count = 2, visible = True, mesh_renderOrder = 0\<rparr>"
    "instanceMatrix drained = Some (replicate 48 0)"
    by (simp_all add: drained_def)
  from update_draw_count[of drained example_env] d
  have 1: "\<exists>s'. update example_env drained = Inr s' \<and>
         mesh s' = Some \<lparr>count = 2, visible = False, mesh_renderOrder = 0\<rparr> \<and>
         bufferElementSize s' = 3 \<and> instanceMatrix s' = Some (replicate 48 0)"
    by auto
  have "\<exists>s. run example_env [Insert 0 1] (init 0 True) = Inr s \<and> elementCount s = 1 \<and>
      (\<exists>s'. update example_env s = Inr s')"
    by (simp add: eval_defs ceiling_three_halves)
  then obtain s s' where s: "run example_env [Insert 0 1] (init 0 True) = Inr s"
    "elementCount s = 1" "update example_env s = Inr s'" by blast
  from update_draw_count[of s example_env] s(2,3)
  obtain m where "mesh s' = Some m" "count m = 1" "visible m" by auto
  with s 1 show ?thesis by blast
qed




text \<open>
  Claim C9 (the mesh is defined where \<^verbatim>\<open>update()\<close> assigns the draw count). In every reachable
  state a positive capacity comes with a mesh; and with at least one element neither
  \<^verbatim>\<open>update()\<close> nor \<^verbatim>\<open>onFrame()\<close> fails at \<^verbatim>\<open>this.mesh!.count\<close>.
\<close>

theorem update_mesh_defined:
  assumes "reachable A s" and "1 \<le> elementCount s"
  shows "(1 \<le> bufferElementSize s \<longrightarrow> mesh s \<noteq> None)
       \<and> update A s \<noteq> Inl MeshUndefined \<and> onFrame A s \<noteq> Inl MeshUndefined"
proof -
  from reachable_invariants[OF assms(1)] have inv: "storage_inv s" by simp
  then have inv': "storage_inv (s\<lparr>nextUpdateTime := None\<rparr>)" by (simp add: storage_inv_def)
  from inv have "1 \<le> bufferElementSize s \<longrightarrow> mesh s \<noteq> None" by (auto simp: storage_inv_def)
  moreover have "update A s \<noteq> Inl MeshUndefined" using inv by (rule update_no_mesh_error)
  moreover have "onFrame A s \<noteq> Inl MeshUndefined"
    using update_no_mesh_error[OF inv'] by (simp add: onFrame_def)
  ultimately show ?thesis by simp
qed

text \<open>Witness of C9. The theorem in the state after an insert, a frame and a second insert.\<close>

theorem update_mesh_defined_witness:
  "\<exists>s. run example_env [Insert 0 1, Frame, Insert 0 2] (init 0 True) = Inr s \<and>
       1 \<le> elementCount s \<and> 1 \<le> bufferElementSize s \<and> mesh s \<noteq> None \<and>
       update example_env s \<noteq> Inl MeshUndefined \<and> onFrame example_env s \<noteq> Inl MeshUndefined"
proof -
  have "\<exists>s. run example_env [Insert 0 1, Frame, Insert 0 2] (init 0 True) = Inr s \<and>
      elementCount s = 2 \<and> bufferElementSize s = 2"
    by (simp add: eval_defs ceiling_three_halves)
  then obtain s where s: "run example_env [Insert 0 1, Frame, Insert 0 2] (init 0 True) = Inr s"
    "elementCount s = 2" "bufferElementSize s = 2" by blast
  have r: "reachable example_env s" by (rule run_reachable[OF reachable_init s(1)])
  from update_mesh_defined[OF r] s show ?thesis by auto
qed


end
